theory Spec2Isabelle
  imports Main "HOL-Library.AList" "HOL-Library.Sublist"
begin

section \<open>The OpenConfig ACL generator (aerleon/lib/openconfig.py)\<close>

text \<open>
  A shallow embedding of \<^verbatim>\<open>Term.__init__\<close>, of \<^verbatim>\<open>Term.ConvertToDict\<close>, of the setters
  it calls, and of \<^verbatim>\<open>OpenConfig._TranslatePolicy\<close> / \<^verbatim>\<open>OpenConfig._TranslateTerms\<close>.
  Python dictionaries are association lists in insertion order; assignment to a key is
  \<open>AList.update\<close> (an existing key keeps its position, a new key goes to the end) and
  lookup is \<open>map_of\<close>. Exceptions are values of the type \<open>error\<close>, returned as \<open>Inl\<close>.
\<close>

subsection \<open>Values, dictionaries, errors\<close>

text \<open>The leaves of an entry: \<^verbatim>\<open>Union[int, str]\<close> in the source's TypedDicts.\<close>

datatype leaf = IntV int | StrV string

text \<open>
  The shapes declared by the source: \<^verbatim>\<open>IPConfig\<close>, \<^verbatim>\<open>TransportConfig\<close> and
  \<^verbatim>\<open>ActionConfig\<close> are dictionaries of leaves; \<^verbatim>\<open>IP\<close>, \<^verbatim>\<open>Transport\<close> and \<^verbatim>\<open>Action\<close>
  hold one of them under the key \<^verbatim>\<open>config\<close>; the working dictionary \<^verbatim>\<open>self.term_dict\<close>
  maps \<^verbatim>\<open>actions\<close>, \<^verbatim>\<open>ipv4\<close>, \<^verbatim>\<open>ipv6\<close>, \<^verbatim>\<open>transport\<close> to those.
\<close>

type_synonym config = "(string \<times> leaf) list"
type_synonym container = "(string \<times> config) list"
type_synonym term_dict = "(string \<times> container) list"

text \<open>
  An \<^verbatim>\<open>ACLEntry\<close> as \<^verbatim>\<open>_TranslateTerms\<close> leaves it: the keys of the working dictionary
  and the integer \<^verbatim>\<open>sequence-id\<close> beside them.
\<close>

datatype acl_value = IntField int | DictField container

type_synonym ACLEntry = "(string \<times> acl_value) list"

text \<open>A protocol of a term: a string (a mnemonic or \<^verbatim>\<open>'none'\<close>) or an integer.\<close>

datatype proto = ProtoName string | ProtoNum int

text \<open>
  The exceptions. \<^verbatim>\<open>OcFirewallError\<close> holds its two arguments and
  \<^verbatim>\<open>TcpEstablishedWithNonTcpError\<close> its message; \<^verbatim>\<open>UnsupportedFilterError\<close>, which the
  constructor of the base class raises, holds the protocol list that its message prints.
\<close>

datatype error =
    OcFirewallError string string
  | TcpEstablishedWithNonTcpError string
  | UnsupportedFilterError "proto list"
  | KeyError
  | IndexError
  | UnboundLocalError

text \<open>
  \<^verbatim>\<open>RecursiveDict\<close> is \<^verbatim>\<open>defaultdict(RecursiveDict)\<close>: reading a missing key gives a fresh
  empty dictionary (and stores it; every read in the source is followed by a write into
  what was read, which the setters below write back).
\<close>

definition getitem :: "(string \<times> (string \<times> 'v) list) list \<Rightarrow> string \<Rightarrow> (string \<times> 'v) list" where
  "getitem d k = (case map_of d k of None \<Rightarrow> [] | Some v \<Rightarrow> v)"

text \<open>\<^verbatim>\<open>d[a][b] = v\<close> and \<^verbatim>\<open>d[a][b][c] = v\<close> on a \<^verbatim>\<open>RecursiveDict\<close>.\<close>

definition setitem2 :: "string \<Rightarrow> string \<Rightarrow> config \<Rightarrow> term_dict \<Rightarrow> term_dict" where
  "setitem2 a b v d = AList.update a (AList.update b v (getitem d a)) d"

definition setitem3 :: "string \<Rightarrow> string \<Rightarrow> string \<Rightarrow> leaf \<Rightarrow> term_dict \<Rightarrow> term_dict" where
  "setitem3 a b c v d =
     setitem2 a b (AList.update c v (getitem (getitem d a) b)) d"

text \<open>\<^verbatim>\<open>dict.update(other)\<close>: the keys of \<open>other\<close> are assigned in order.\<close>

definition dict_update :: "(string \<times> 'v) list \<Rightarrow> (string \<times> 'v) list \<Rightarrow> (string \<times> 'v) list" where
  "dict_update other d = fold (\<lambda>(k, v). AList.update k v) other d"

text \<open>\<^verbatim>\<open>'%d' % n\<close>: the decimal digits of a Python integer.\<close>

definition digit_char :: "nat \<Rightarrow> char" where
  "digit_char n = ''0123456789'' ! n"

fun str_nat :: "nat \<Rightarrow> string" where
  "str_nat n =
     (if n < 10 then [digit_char n]
      else str_nat (n div 10) @ [digit_char (n mod 10)])"

declare str_nat.simps [simp del]

definition fmt_d :: "int \<Rightarrow> string" where
  "fmt_d i = (if i < 0 then CHR ''-'' # str_nat (nat (- i)) else str_nat (nat i))"

text \<open>\<^verbatim>\<open>'%d..%d' % (start, end)\<close>\<close>

definition fmt_range :: "int \<Rightarrow> int \<Rightarrow> string" where
  "fmt_range start end = fmt_d start @ ''..'' @ fmt_d end"

text \<open>
  A \<^verbatim>\<open>for\<close> loop over a list whose body updates the state or raises: the first
  exception leaves the loop.
\<close>

fun for_each :: "('a \<Rightarrow> 's \<Rightarrow> 'e + 's) \<Rightarrow> 'a list \<Rightarrow> 's \<Rightarrow> 'e + 's" where
  "for_each body [] s = Inr s"
| "for_each body (x # xs) s =
     (case body x s of Inl e \<Rightarrow> Inl e | Inr s' \<Rightarrow> for_each body xs s')"

subsection \<open>The policy term\<close>

text \<open>
  Modelled from the spec: the address objects of the flattened lists (class
  \<^verbatim>\<open>nacaddr.IP\<close>, not in the source) are "family-tagged" concrete addresses; the code
  reads their \<^verbatim>\<open>version\<close> and their \<^verbatim>\<open>str()\<close>.
\<close>

record address =
  version :: int
  str :: string

text \<open>
  The fields of \<^verbatim>\<open>policy.Term\<close> that the generator reads, the address lists as
  \<^verbatim>\<open>FlattenAll\<close> leaves them.
\<close>

record policy_term =
  name :: string
  action :: "string list"
  flattened_saddr :: "address list"
  flattened_daddr :: "address list"
  source_port :: "(int \<times> int) list"
  destination_port :: "(int \<times> int) list"
  protocol :: "proto list"
  option :: "string list"
  comment :: "string list"

text \<open>
  Modelled from the spec: \<^verbatim>\<open>policy.Term.GetAddressOfVersion\<close> is not in the source;
  the spec has the expander "resolve address lists for the given family" from the
  ordered, family-tagged flattened lists.
\<close>

definition GetAddressOfVersion :: "address list \<Rightarrow> int \<Rightarrow> address list" where
  "GetAddressOfVersion addrs af = filter (\<lambda>x. version x = af) addrs"

text \<open>
  An element of \<^verbatim>\<open>saddrs\<close> / \<^verbatim>\<open>daddrs\<close>: an address object, or the string \<^verbatim>\<open>'any'\<close>
  that stands for an empty list (an address object never equals a string).
\<close>

datatype addr_item = Any | Addr address

definition addrs_or_any :: "address list \<Rightarrow> addr_item list" where
  "addrs_or_any addrs = (if addrs = [] then [Any] else map Addr addrs)"

subsection \<open>Class Term: tables and setters\<close>

definition ACTION_MAP :: "(string \<times> string) list" where
  "ACTION_MAP = [(''accept'', ''ACCEPT''), (''deny'', ''DROP''), (''reject'', ''REJECT'')]"

definition AF_RENAME :: "(int \<times> string) list" where
  "AF_RENAME = [(4, ''ipv4''), (6, ''ipv6'')]"

text \<open>
  Modelled from the spec: \<^verbatim>\<open>AF_MAP\<close> is inherited from \<^verbatim>\<open>aclgenerator.Term\<close>, which is
  not in the source; the spec's families are inet (IPv4) and inet6 (IPv6).
\<close>

definition AF_MAP :: "(string \<times> int) list" where
  "AF_MAP = [(''inet'', 4), (''inet6'', 6)]"

definition tcp_established :: config where
  "tcp_established =
     [(''detail-mode'', StrV ''BUILTIN''), (''builtin-detail'', StrV ''TCP_ESTABLISHED'')]"

text \<open>
  \<^verbatim>\<open>SetAction\<close>: \<^verbatim>\<open>self.term.action[0]\<close> raises IndexError on an empty list, and
  \<^verbatim>\<open>ACTION_MAP[...]\<close> raises KeyError on an unknown action.
\<close>

definition SetAction :: "policy_term \<Rightarrow> term_dict \<Rightarrow> error + term_dict" where
  "SetAction t d =
     (case action t of
        [] \<Rightarrow> Inl IndexError
      | a # _ \<Rightarrow>
          (case map_of ACTION_MAP a of
             None \<Rightarrow> Inl KeyError
           | Some act \<Rightarrow>
               Inr (setitem3 ''actions'' ''config'' ''forwarding-action'' (StrV act)
                     (setitem2 ''actions'' ''config'' []
                       (AList.update ''actions'' [] d)))))"

definition SetOptions :: "policy_term \<Rightarrow> term_dict \<Rightarrow> error + term_dict" where
  "SetOptions t d =
     (if option t \<noteq> [] then
        if ''tcp-established'' \<in> set (option t) then
          if protocol t \<noteq> [ProtoName ''tcp''] then
            Inl (TcpEstablishedWithNonTcpError
                  (''tcp-established can only be used with tcp protocol in term '' @ name t))
          else
            Inr (setitem2 ''transport'' ''config''
                  (dict_update tcp_established (getitem (getitem d ''transport'') ''config'')) d)
        else Inr d
      else Inr d)"

definition SetSourceAddress :: "string \<Rightarrow> string \<Rightarrow> term_dict \<Rightarrow> term_dict" where
  "SetSourceAddress family saddr d = setitem3 family ''config'' ''source-address'' (StrV saddr) d"

definition SetDestAddress :: "string \<Rightarrow> string \<Rightarrow> term_dict \<Rightarrow> term_dict" where
  "SetDestAddress family daddr d = setitem3 family ''config'' ''destination-address'' (StrV daddr) d"

definition port_value :: "int \<Rightarrow> int \<Rightarrow> leaf" where
  "port_value start end = (if start = end then IntV start else StrV (fmt_range start end))"

definition SetSourcePorts :: "int \<Rightarrow> int \<Rightarrow> term_dict \<Rightarrow> term_dict" where
  "SetSourcePorts start end d = setitem3 ''transport'' ''config'' ''source-port'' (port_value start end) d"

definition SetDestPorts :: "int \<Rightarrow> int \<Rightarrow> term_dict \<Rightarrow> term_dict" where
  "SetDestPorts start end d =
     setitem3 ''transport'' ''config'' ''destination-port'' (port_value start end) d"

definition SetProtocol :: "string \<Rightarrow> int \<Rightarrow> term_dict \<Rightarrow> term_dict" where
  "SetProtocol family p d = setitem3 family ''config'' ''protocol'' (IntV p) d"

subsection \<open>Term.__init__\<close>

text \<open>\<^verbatim>\<open>str(protocol)\<close> of a protocol of the list.\<close>

definition str_proto :: "proto \<Rightarrow> string" where
  "str_proto p = (case p of ProtoName m \<Rightarrow> m | ProtoNum n \<Rightarrow> fmt_d n)"

text \<open>
  Modelled from the spec: the constructor of the base class \<^verbatim>\<open>aclgenerator.Term\<close>, which
  \<^verbatim>\<open>Term.__init__\<close> calls first (\<^verbatim>\<open>super().__init__(term)\<close>, line 103), is not in the source.
  The spec has the constructs that the target does not support rejected before a term is
  expanded, and has each protocol of a term that is expanded be a numeric identifier or a
  name of the protocol-name table. The constructor refuses a term with a protocol that is
  neither a key of \<^verbatim>\<open>PROTO_MAP\<close> nor, as a string, one of its numbers; \<open>proto_supported\<close>
  is the test that a protocol passes.
\<close>

definition proto_supported :: "(string \<times> int) list \<Rightarrow> proto \<Rightarrow> bool" where
  "proto_supported PROTO_MAP p =
     ((case p of ProtoName m \<Rightarrow> map_of PROTO_MAP m \<noteq> None | ProtoNum n \<Rightarrow> False) \<or>
      str_proto p \<in> set (map (\<lambda>kv. fmt_d (snd kv)) PROTO_MAP))"

text \<open>
  Modelled from the spec: \<^verbatim>\<open>aclgenerator.ProtocolNameToNumber\<close>, not in the source, with
  which the constructor resolves the names that the platform always wants as numbers: the
  names of \<open>proto_to_num\<close> are replaced by their numbers in the table (a name that the
  table does not have raises KeyError), and every other protocol is kept.
\<close>

fun ProtocolNameToNumber :: "proto list \<Rightarrow> string list \<Rightarrow> (string \<times> int) list \<Rightarrow> error + proto list" where
  "ProtocolNameToNumber [] proto_to_num name_to_num_map = Inr []"
| "ProtocolNameToNumber (p # protocols) proto_to_num name_to_num_map =
     (case (case p of
              ProtoName m \<Rightarrow>
                if m \<in> set proto_to_num then
                  (case map_of name_to_num_map m of
                     None \<Rightarrow> Inl KeyError
                   | Some n \<Rightarrow> Inr (ProtoNum n))
                else Inr p
            | ProtoNum n \<Rightarrow> Inr p) of
        Inl e \<Rightarrow> Inl e
      | Inr p' \<Rightarrow>
          (case ProtocolNameToNumber protocols proto_to_num name_to_num_map of
             Inl e \<Rightarrow> Inl e
           | Inr return_proto \<Rightarrow> Inr (p' # return_proto)))"

text \<open>
  Modelled from the spec: \<^verbatim>\<open>Term.__init__\<close> as far as the inherited constructor decides
  it. It raises \<^verbatim>\<open>UnsupportedFilterError\<close> for a protocol that it refuses, and otherwise
  assigns to \<^verbatim>\<open>term.protocol\<close> the list in which the names of \<^verbatim>\<open>ALWAYS_PROTO_NUM\<close> are
  replaced by their numbers. \<^verbatim>\<open>ALWAYS_PROTO_NUM\<close> is a parameter, as \<^verbatim>\<open>PROTO_MAP\<close> is.
  \<^verbatim>\<open>FlattenAll\<close>, called next (line 109), has left the flattened address lists of
  the record.
\<close>

definition Term_init :: "(string \<times> int) list \<Rightarrow> string list \<Rightarrow> policy_term \<Rightarrow> error + policy_term" where
  "Term_init PROTO_MAP ALWAYS_PROTO_NUM t =
     (if \<not> list_all (proto_supported PROTO_MAP) (protocol t) then
        Inl (UnsupportedFilterError (protocol t))
      else
        (case ProtocolNameToNumber (protocol t) ALWAYS_PROTO_NUM PROTO_MAP of
           Inl e \<Rightarrow> Inl e
         | Inr return_proto \<Rightarrow> Inr (t\<lparr>protocol := return_proto\<rparr>)))"

subsection \<open>Term.ConvertToDict\<close>

text \<open>
  The state of the nested loops: the working dictionary \<^verbatim>\<open>self.term_dict\<close>, changed in
  place by the setters, and the list \<^verbatim>\<open>rules\<close>, to which a deep copy of the working
  dictionary is appended in the innermost loop. \<open>PROTO_MAP\<close> is the protocol-name table
  inherited from \<^verbatim>\<open>aclgenerator.Term\<close>; it is a parameter.
\<close>

type_synonym conv_state = "term_dict \<times> term_dict list"

definition is_any_port :: "int \<times> int \<Rightarrow> bool" where
  "is_any_port r = (fst r = snd r \<and> snd r = 0)"

fun proto_body :: "(string \<times> int) list \<Rightarrow> string \<Rightarrow> proto \<Rightarrow> conv_state \<Rightarrow> error + conv_state" where
  "proto_body PROTO_MAP family (ProtoName p) (d, rules) =
     (if p \<noteq> ''none'' then
        (case map_of PROTO_MAP p of
           None \<Rightarrow> Inl (OcFirewallError ''Protocol %s unknown. Use an integer.'' p)
         | Some proto_num \<Rightarrow>
             (let d' = SetProtocol family proto_num d in Inr (d', rules @ [d'])))
      else Inr (d, rules @ [d]))"
| "proto_body PROTO_MAP family (ProtoNum n) (d, rules) =
     (let d' = SetProtocol family n d in Inr (d', rules @ [d']))"

fun dport_body ::
  "(string \<times> int) list \<Rightarrow> string \<Rightarrow> proto list \<Rightarrow> int \<times> int \<Rightarrow> conv_state \<Rightarrow> error + conv_state" where
  "dport_body PROTO_MAP family protos r (d, rules) =
     for_each (proto_body PROTO_MAP family) protos
       (if \<not> is_any_port r then SetDestPorts (fst r) (snd r) d else d, rules)"

fun sport_body ::
  "(string \<times> int) list \<Rightarrow> string \<Rightarrow> (int \<times> int) list \<Rightarrow> proto list \<Rightarrow> int \<times> int \<Rightarrow>
     conv_state \<Rightarrow> error + conv_state" where
  "sport_body PROTO_MAP family dports protos r (d, rules) =
     for_each (dport_body PROTO_MAP family protos) dports
       (if \<not> is_any_port r then SetSourcePorts (fst r) (snd r) d else d, rules)"

fun daddr_body ::
  "(string \<times> int) list \<Rightarrow> string \<Rightarrow> (int \<times> int) list \<Rightarrow> (int \<times> int) list \<Rightarrow> proto list \<Rightarrow>
     addr_item \<Rightarrow> conv_state \<Rightarrow> error + conv_state" where
  "daddr_body PROTO_MAP family sports dports protos daddr (d, rules) =
     for_each (sport_body PROTO_MAP family dports protos) sports
       (case daddr of Any \<Rightarrow> d | Addr a \<Rightarrow> SetDestAddress family (str a) d, rules)"

fun saddr_body ::
  "(string \<times> int) list \<Rightarrow> string \<Rightarrow> addr_item list \<Rightarrow> (int \<times> int) list \<Rightarrow> (int \<times> int) list \<Rightarrow>
     proto list \<Rightarrow> addr_item \<Rightarrow> conv_state \<Rightarrow> error + conv_state" where
  "saddr_body PROTO_MAP family daddrs sports dports protos saddr (d, rules) =
     for_each (daddr_body PROTO_MAP family sports dports protos) daddrs
       (case saddr of Any \<Rightarrow> d | Addr a \<Rightarrow> SetSourceAddress family (str a) d, rules)"

definition sports_of :: "policy_term \<Rightarrow> (int \<times> int) list" where
  "sports_of t = (if source_port t = [] then [(0, 0)] else source_port t)"

definition dports_of :: "policy_term \<Rightarrow> (int \<times> int) list" where
  "dports_of t = (if destination_port t = [] then [(0, 0)] else destination_port t)"

definition protos_of :: "policy_term \<Rightarrow> proto list" where
  "protos_of t = (if protocol t = [] then [ProtoName ''none''] else protocol t)"

text \<open>
  \<^verbatim>\<open>ConvertToDict\<close> of a \<^verbatim>\<open>Term(term, inet_version)\<close>. \<^verbatim>\<open>AF_MAP.get\<close> gives None for
  an unknown family and \<^verbatim>\<open>AF_RENAME[None]\<close> raises KeyError. \<^verbatim>\<open>SetName\<close> and
  \<^verbatim>\<open>SetComments\<close> do nothing; no setter reads \<^verbatim>\<open>filter_options\<close>.
\<close>

definition ConvertToDict ::
  "(string \<times> int) list \<Rightarrow> policy_term \<Rightarrow> string \<Rightarrow> string list \<Rightarrow> error + term_dict list" where
  "ConvertToDict PROTO_MAP t inet_version filter_options =
     (case map_of AF_MAP inet_version of
        None \<Rightarrow> Inl KeyError
      | Some term_af \<Rightarrow>
     (case map_of AF_RENAME term_af of
        None \<Rightarrow> Inl KeyError
      | Some family \<Rightarrow>
     (case SetAction t [] of
        Inl e \<Rightarrow> Inl e
      | Inr d0 \<Rightarrow>
     (case SetOptions t d0 of
        Inl e \<Rightarrow> Inl e
      | Inr d1 \<Rightarrow>
     (case for_each
             (saddr_body PROTO_MAP family
                (addrs_or_any (GetAddressOfVersion (flattened_daddr t) term_af))
                (sports_of t) (dports_of t) (protos_of t))
             (addrs_or_any (GetAddressOfVersion (flattened_saddr t) term_af))
             (d1, []) of
        Inl e \<Rightarrow> Inl e
      | Inr s \<Rightarrow> Inr (snd s))))))"

subsection \<open>Class OpenConfig: the translator\<close>

text \<open>
  Modelled from the spec: the policy header (class \<^verbatim>\<open>policy.Header\<close>, not in the
  source) gives the filter's option list and its name for the platform, and a comment.
\<close>

record header =
  FilterOptions :: "string list"
  FilterName :: string
  header_comment :: "string list"

record ACLSetConfig =
  config_name :: string
  config_type :: string

text \<open>
  The dictionary \<^verbatim>\<open>oc_acl_set\<close>, whose four keys are fixed: \<^verbatim>\<open>acl-entries\<close> (holding
  the list under \<^verbatim>\<open>acl-entry\<close>), \<^verbatim>\<open>config\<close>, \<^verbatim>\<open>name\<close> and \<^verbatim>\<open>type\<close>.
\<close>

record ACLSet =
  acl_entries :: "ACLEntry list"
  config :: ACLSetConfig
  set_name :: string
  set_type :: string

text \<open>The translator's fields \<^verbatim>\<open>self.total_rule_count\<close> and \<^verbatim>\<open>self.acl_sets\<close>.\<close>

record translator =
  total_rule_count :: int
  acl_sets :: "ACLSet list"

definition FAMILY_MAP :: "(string \<times> string) list" where
  "FAMILY_MAP = [(''mixed'', ''ACL_MIXED''), (''inet6'', ''ACL_IPV6''), (''inet'', ''ACL_IPV4'')]"

text \<open>\<^verbatim>\<open>rule['sequence-id'] = n\<close> on a rule that \<^verbatim>\<open>ConvertToDict\<close> returned.\<close>

definition set_sequence_id :: "int \<Rightarrow> term_dict \<Rightarrow> ACLEntry" where
  "set_sequence_id n rule =
     AList.update ''sequence-id'' (IntField n) (map (\<lambda>(k, c). (k, DictField c)) rule)"

text \<open>
  The body of \<^verbatim>\<open>for rule in t.ConvertToDict(filter_options)\<close>; its state is
  \<^verbatim>\<open>self.total_rule_count\<close> and the list \<^verbatim>\<open>oc_acl_entries\<close>.
\<close>

fun rule_body :: "term_dict \<Rightarrow> int \<times> ACLEntry list \<Rightarrow> int \<times> ACLEntry list" where
  "rule_body rule (count, entries) =
     (count + 1, entries @ [set_sequence_id ((count + 1) * 5) rule])"

text \<open>
  One pass of \<^verbatim>\<open>for term_af in term_address_families\<close>:
  \<^verbatim>\<open>t = self._TERM(term, term_af)\<close>, whose constructor may refuse the term and assigns
  \<^verbatim>\<open>term.protocol\<close>, then the loop over \<^verbatim>\<open>t.ConvertToDict(filter_options)\<close>. The policy
  term is part of the state: the second pass of a mixed filter constructs from the term as
  the first pass left it.
\<close>

definition af_body ::
  "(string \<times> int) list \<Rightarrow> string list \<Rightarrow> string list \<Rightarrow> string \<Rightarrow>
     policy_term \<times> int \<times> ACLEntry list \<Rightarrow> error + policy_term \<times> int \<times> ACLEntry list" where
  "af_body PROTO_MAP ALWAYS_PROTO_NUM filter_options term_af s =
     (case Term_init PROTO_MAP ALWAYS_PROTO_NUM (fst s) of
        Inl e \<Rightarrow> Inl e
      | Inr t \<Rightarrow>
          (case ConvertToDict PROTO_MAP t term_af filter_options of
             Inl e \<Rightarrow> Inl e
           | Inr rules \<Rightarrow> Inr (t, fold rule_body rules (snd s))))"

definition term_address_families :: "string \<Rightarrow> string list" where
  "term_address_families address_family =
     (if address_family = ''mixed'' then [''inet'', ''inet6''] else [address_family])"

definition term_body ::
  "(string \<times> int) list \<Rightarrow> string list \<Rightarrow> string \<Rightarrow> string list \<Rightarrow> policy_term \<Rightarrow>
     int \<times> ACLEntry list \<Rightarrow> error + int \<times> ACLEntry list" where
  "term_body PROTO_MAP ALWAYS_PROTO_NUM address_family filter_options t s =
     (case for_each (af_body PROTO_MAP ALWAYS_PROTO_NUM filter_options)
             (term_address_families address_family) (t, s) of
        Inl e \<Rightarrow> Inl e
      | Inr ts \<Rightarrow> Inr (snd ts))"

definition TranslateTerms ::
  "(string \<times> int) list \<Rightarrow> string list \<Rightarrow> policy_term list \<Rightarrow> string \<Rightarrow> string \<Rightarrow>
     string list \<Rightarrow> string list \<Rightarrow> translator \<Rightarrow> error + translator" where
  "TranslateTerms PROTO_MAP ALWAYS_PROTO_NUM terms address_family filter_name hdr_comments
       filter_options self =
     (case for_each (term_body PROTO_MAP ALWAYS_PROTO_NUM address_family filter_options) terms
             (total_rule_count self, []) of
        Inl e \<Rightarrow> Inl e
      | Inr s \<Rightarrow>
          (case map_of FAMILY_MAP address_family of
             None \<Rightarrow> Inl KeyError
           | Some oc_type \<Rightarrow>
               Inr \<lparr>total_rule_count = fst s,
                    acl_sets = acl_sets self @
                      [\<lparr>acl_entries = snd s,
                        config = \<lparr>config_name = filter_name, config_type = oc_type\<rparr>,
                        set_name = filter_name,
                        set_type = oc_type\<rparr>]\<rparr>))"

text \<open>
  \<^verbatim>\<open>for i in self._SUPPORTED_AF\<close>: a frozenset has no fixed iteration order, so the order
  in which its three tokens are visited is the parameter \<open>af_order\<close>.
  \<^verbatim>\<open>filter_options.remove(i)\<close> removes the first occurrence.
\<close>

definition select_family :: "string list \<Rightarrow> string list \<Rightarrow> string \<times> string list" where
  "select_family af_order filter_options =
     fold (\<lambda>i (address_family, opts).
             if i \<in> set opts then (i, remove1 i opts) else (address_family, opts))
       af_order (''inet'', filter_options)"

definition filter_body ::
  "(string \<times> int) list \<Rightarrow> string list \<Rightarrow> string list \<Rightarrow> header \<times> policy_term list \<Rightarrow>
     translator \<Rightarrow> error + translator" where
  "filter_body PROTO_MAP ALWAYS_PROTO_NUM af_order f self =
     (let sel = select_family af_order (FilterOptions (fst f))
      in TranslateTerms PROTO_MAP ALWAYS_PROTO_NUM (snd f) (fst sel) (FilterName (fst f))
           (header_comment (fst f)) (snd sel) self)"

text \<open>
  \<^verbatim>\<open>_TranslatePolicy\<close> on the list \<^verbatim>\<open>pol.filters\<close>. The closing \<^verbatim>\<open>logging.info\<close> reads
  \<^verbatim>\<open>filter_name\<close>, which is unbound when the policy has no filter.
\<close>

definition TranslatePolicy ::
  "(string \<times> int) list \<Rightarrow> string list \<Rightarrow> string list \<Rightarrow> (header \<times> policy_term list) list \<Rightarrow>
     error + translator" where
  "TranslatePolicy PROTO_MAP ALWAYS_PROTO_NUM af_order filters =
     (case for_each (filter_body PROTO_MAP ALWAYS_PROTO_NUM af_order) filters
             \<lparr>total_rule_count = 0, acl_sets = []\<rparr> of
        Inl e \<Rightarrow> Inl e
      | Inr self \<Rightarrow> if filters = [] then Inl UnboundLocalError else Inr self)"

section \<open>Reading entries, and the vocabulary of the properties\<close>

text \<open>
  \<^verbatim>\<open>d.get(a, {}).get(b, {}).get(c)\<close>: the leaf of an entry at a path of three keys, read
  without creating anything.
\<close>

definition lookup3 :: "term_dict \<Rightarrow> string \<Rightarrow> string \<Rightarrow> string \<Rightarrow> leaf option" where
  "lookup3 d a b c =
     (case map_of d a of
        None \<Rightarrow> None
      | Some da \<Rightarrow> (case map_of da b of None \<Rightarrow> None | Some dab \<Rightarrow> map_of dab c))"

text \<open>The number of iterations a list gives a loop: 1 when it is empty (the "any" case).\<close>

definition dim :: "'a list \<Rightarrow> nat" where
  "dim xs = (if xs = [] then 1 else length xs)"

text \<open>
  The number that \<^verbatim>\<open>SetProtocol\<close> is called with for a protocol of the list, if it is
  called: nothing for \<^verbatim>\<open>'none'\<close> and for a name that \<open>PROTO_MAP\<close> does not have.
\<close>

definition proto_number :: "(string \<times> int) list \<Rightarrow> proto \<Rightarrow> int option" where
  "proto_number PROTO_MAP p =
     (case p of
        ProtoNum n \<Rightarrow> Some n
      | ProtoName m \<Rightarrow> if m = ''none'' then None else map_of PROTO_MAP m)"

text \<open>The inputs on which \<^verbatim>\<open>ConvertToDict\<close> raises nothing.\<close>

definition proto_known :: "(string \<times> int) list \<Rightarrow> proto \<Rightarrow> bool" where
  "proto_known PROTO_MAP p =
     (case p of ProtoNum n \<Rightarrow> True | ProtoName m \<Rightarrow> m = ''none'' \<or> map_of PROTO_MAP m \<noteq> None)"

definition options_ok :: "policy_term \<Rightarrow> bool" where
  "options_ok t = (''tcp-established'' \<notin> set (option t) \<or> protocol t = [ProtoName ''tcp''])"

definition action_ok :: "policy_term \<Rightarrow> bool" where
  "action_ok t = (case action t of [] \<Rightarrow> False | a # _ \<Rightarrow> map_of ACTION_MAP a \<noteq> None)"


text \<open>The change each loop makes to the working dictionary before it enters the next loop.\<close>

definition dport_set :: "int \<times> int \<Rightarrow> term_dict \<Rightarrow> term_dict" where
  "dport_set x d = (if \<not> is_any_port x then SetDestPorts (fst x) (snd x) d else d)"

definition sport_set :: "int \<times> int \<Rightarrow> term_dict \<Rightarrow> term_dict" where
  "sport_set x d = (if \<not> is_any_port x then SetSourcePorts (fst x) (snd x) d else d)"

definition daddr_set :: "string \<Rightarrow> addr_item \<Rightarrow> term_dict \<Rightarrow> term_dict" where
  "daddr_set family x d = (case x of Any \<Rightarrow> d | Addr a \<Rightarrow> SetDestAddress family (str a) d)"

definition saddr_set :: "string \<Rightarrow> addr_item \<Rightarrow> term_dict \<Rightarrow> term_dict" where
  "saddr_set family x d = (case x of Any \<Rightarrow> d | Addr a \<Rightarrow> SetSourceAddress family (str a) d)"

text \<open>
  A loop (or loop body) \<open>run\<close> started on a working dictionary that satisfies \<open>P\<close>, when it
  raises nothing, ends on one that satisfies \<open>P\<close> and has appended exactly \<open>k\<close> rules, the
  \<open>j\<close>-th of which satisfies \<open>Q j\<close>.
\<close>

definition emits ::
  "(term_dict \<Rightarrow> bool) \<Rightarrow> nat \<Rightarrow> (nat \<Rightarrow> term_dict \<Rightarrow> bool) \<Rightarrow> (conv_state \<Rightarrow> error + conv_state) \<Rightarrow> bool" where
  "emits P k Q run \<longleftrightarrow>
     (\<forall>d rules d' rules'. P d \<longrightarrow> run (d, rules) = Inr (d', rules') \<longrightarrow>
        P d' \<and> (\<exists>out. rules' = rules @ out \<and> length out = k \<and> (\<forall>j<k. Q j (out ! j))))"

text \<open>
  What the \<open>i\<close>-th rule of a term owes to the iteration that appended it: \<open>Epr n\<close> when the
  protocol of that iteration has the number \<open>n\<close>, \<open>Edp x\<close> / \<open>Esp x\<close> when its destination /
  source port range \<open>x\<close> is not the pair (0, 0), and the invariant \<open>I\<close>.
\<close>

definition pr_ok :: "(int \<Rightarrow> term_dict \<Rightarrow> bool) \<Rightarrow> (string \<times> int) list \<Rightarrow> proto list \<Rightarrow> nat \<Rightarrow> term_dict \<Rightarrow> bool" where
  "pr_ok Epr pm protos j r \<longleftrightarrow> (\<forall>n. proto_number pm (protos ! j) = Some n \<longrightarrow> Epr n r)"

definition port_ok :: "(int \<times> int \<Rightarrow> term_dict \<Rightarrow> bool) \<Rightarrow> (int \<times> int) list \<Rightarrow> nat \<Rightarrow> term_dict \<Rightarrow> bool" where
  "port_ok E ports j r \<longleftrightarrow> (\<not> is_any_port (ports ! j) \<longrightarrow> E (ports ! j) r)"

definition entry_ok ::
  "(term_dict \<Rightarrow> bool) \<Rightarrow> (int \<times> int \<Rightarrow> term_dict \<Rightarrow> bool) \<Rightarrow> (int \<times> int \<Rightarrow> term_dict \<Rightarrow> bool) \<Rightarrow>
     (int \<Rightarrow> term_dict \<Rightarrow> bool) \<Rightarrow> (string \<times> int) list \<Rightarrow> (int \<times> int) list \<Rightarrow> (int \<times> int) list \<Rightarrow>
     proto list \<Rightarrow> nat \<Rightarrow> term_dict \<Rightarrow> bool" where
  "entry_ok I Esp Edp Epr pm sports dports protos i r \<longleftrightarrow>
     I r \<and> port_ok Esp sports (i div (length protos * length dports) mod length sports) r
         \<and> port_ok Edp dports (i div length protos mod length dports) r
         \<and> pr_ok Epr pm protos (i mod length protos) r"

text \<open>Every field of \<open>d\<close> is a field of \<open>d'\<close> (with whatever value).\<close>

definition keeps :: "term_dict \<Rightarrow> term_dict \<Rightarrow> bool" where
  "keeps d d' \<longleftrightarrow> (\<forall>a b c. lookup3 d a b c \<noteq> None \<longrightarrow> lookup3 d' a b c \<noteq> None)"

text \<open>
  A loop (or loop body) only adds fields: along the dictionary it starts on, the rules it
  appends, in their order, and the dictionary it ends on, no field is lost.
\<close>

definition chain :: "(conv_state \<Rightarrow> error + conv_state) \<Rightarrow> bool" where
  "chain run \<longleftrightarrow>
     (\<forall>d rules d' rules'. run (d, rules) = Inr (d', rules') \<longrightarrow>
        keeps d d' \<and>
        (\<exists>out. rules' = rules @ out \<and> (\<forall>r\<in>set out. keeps d r \<and> keeps r d') \<and>
           sorted_wrt keeps out))"

text \<open>
  The entries that the translator appends for a list of rules when its counter stands at
  \<open>count\<close>: the rules in their order, the k-th of them (from 1) with the sequence-id
  5 * (count + k).
\<close>

fun numbered :: "int \<Rightarrow> term_dict list \<Rightarrow> ACLEntry list" where
  "numbered count [] = []"
| "numbered count (r # rs) = set_sequence_id ((count + 1) * 5) r # numbered (count + 1) rs"

text \<open>The rules of a conversion that raised nothing.\<close>

definition rules_of :: "error + term_dict list \<Rightarrow> term_dict list" where
  "rules_of res = (case res of Inl e \<Rightarrow> [] | Inr rules \<Rightarrow> rules)"

text \<open>
  The conversion of a policy term for one family, as the translator does it: the
  constructor, then \<^verbatim>\<open>ConvertToDict\<close> of the term that it made.
\<close>

definition Term_convert ::
  "(string \<times> int) list \<Rightarrow> string list \<Rightarrow> policy_term \<Rightarrow> string \<Rightarrow> string list \<Rightarrow>
     error + term_dict list" where
  "Term_convert PROTO_MAP ALWAYS_PROTO_NUM t term_af filter_options =
     (case Term_init PROTO_MAP ALWAYS_PROTO_NUM t of
        Inl e \<Rightarrow> Inl e
      | Inr t' \<Rightarrow> ConvertToDict PROTO_MAP t' term_af filter_options)"

text \<open>The rules of one term under a filter's family: one conversion, or two for mixed.\<close>

definition term_rules ::
  "(string \<times> int) list \<Rightarrow> string list \<Rightarrow> string list \<Rightarrow> string \<Rightarrow> policy_term \<Rightarrow>
     term_dict list" where
  "term_rules PROTO_MAP ALWAYS_PROTO_NUM filter_options address_family t =
     concat (map (\<lambda>term_af. rules_of (Term_convert PROTO_MAP ALWAYS_PROTO_NUM t term_af filter_options))
               (term_address_families address_family))"

text \<open>The entries of all rule sets of a run, in the order in which they were appended.\<close>

definition all_entries :: "translator \<Rightarrow> ACLEntry list" where
  "all_entries self = concat (map acl_entries (acl_sets self))"

text \<open>
  A Python dictionary has each key once. For the association lists of the model: no key
  twice, at each of the three levels of a working dictionary.
\<close>

definition wf_config :: "config \<Rightarrow> bool" where
  "wf_config cfg \<longleftrightarrow> distinct (map fst cfg)"

definition wf_container :: "container \<Rightarrow> bool" where
  "wf_container c \<longleftrightarrow> distinct (map fst c) \<and> list_all (\<lambda>kv. wf_config (snd kv)) c"

definition wf_dict :: "term_dict \<Rightarrow> bool" where
  "wf_dict d \<longleftrightarrow> distinct (map fst d) \<and> list_all (\<lambda>kv. wf_container (snd kv)) d"

text \<open>The address-family blocks of an entry: its values under the keys ipv4 and ipv6.\<close>

definition family_blocks :: "ACLEntry \<Rightarrow> container list" where
  "family_blocks e =
     concat (map (\<lambda>kv. case snd kv of
                          DictField c \<Rightarrow> if fst kv = ''ipv4'' \<or> fst kv = ''ipv6'' then [c] else []
                        | IntField n \<Rightarrow> []) e)"

text \<open>How many times a key occurs in a dictionary.\<close>

definition count_key :: "string \<Rightarrow> (string \<times> 'v) list \<Rightarrow> nat" where
  "count_key k d = length (filter (\<lambda>kv. fst kv = k) d)"

text \<open>Each config of a block holds at most one source and one destination address.\<close>

definition one_address_each :: "container \<Rightarrow> bool" where
  "one_address_each blk =
     list_all (\<lambda>kv. count_key ''source-address'' (snd kv) \<le> 1 \<and>
                    count_key ''destination-address'' (snd kv) \<le> 1) blk"

subsection \<open>The value of a field\<close>

text \<open>
  What an iteration of a loop writes into the field of its loop: nothing for the pair
  (0, 0), for \<^verbatim>\<open>'any'\<close>, for \<^verbatim>\<open>'none'\<close> and for a name that \<open>PROTO_MAP\<close> does not have,
  and otherwise the port value, the string of the address, the protocol number.
\<close>

definition port_field :: "int \<times> int \<Rightarrow> leaf option" where
  "port_field x = (if is_any_port x then None else Some (port_value (fst x) (snd x)))"

definition addr_field :: "addr_item \<Rightarrow> leaf option" where
  "addr_field x = (case x of Any \<Rightarrow> None | Addr a \<Rightarrow> Some (StrV (str a)))"

definition proto_field :: "(string \<times> int) list \<Rightarrow> proto \<Rightarrow> leaf option" where
  "proto_field PROTO_MAP p = map_option IntV (proto_number PROTO_MAP p)"

text \<open>
  A field that held \<open>v\<close> (None: absent), after an iteration for \<open>x\<close>: what the iteration
  writes when it writes, and \<open>v\<close> still when it writes nothing. \<open>last_set val xs\<close> is the
  field, absent at first, after the iterations for \<open>xs\<close> in their order: the value written
  by the last of them that wrote.
\<close>

definition set_last :: "('x \<Rightarrow> leaf option) \<Rightarrow> leaf option \<Rightarrow> 'x \<Rightarrow> leaf option" where
  "set_last val v x = (case val x of None \<Rightarrow> v | Some w \<Rightarrow> Some w)"

definition last_set :: "('x \<Rightarrow> leaf option) \<Rightarrow> 'x list \<Rightarrow> leaf option" where
  "last_set val xs = foldl (set_last val) None xs"

text \<open>
  A loop (or loop body) \<open>run\<close> makes the iterations \<open>ys\<close> of the loop that owns the field
  \<open>F\<close>, and appends \<open>k\<close> rules in each of them: it leaves the field as these iterations
  set it, and its \<open>j\<close>-th rule has the field as the iterations up to the one that appended
  the rule set it.
\<close>

definition tracks ::
  "(term_dict \<Rightarrow> leaf option) \<Rightarrow> ('x \<Rightarrow> leaf option) \<Rightarrow> nat \<Rightarrow> 'x list \<Rightarrow>
     (conv_state \<Rightarrow> error + conv_state) \<Rightarrow> bool" where
  "tracks F val k ys run \<longleftrightarrow>
     (\<forall>d rules d' rules'. run (d, rules) = Inr (d', rules') \<longrightarrow>
        F d' = foldl (set_last val) (F d) ys \<and>
        (\<exists>out. rules' = rules @ out \<and> length out = k * length ys \<and>
           (\<forall>j<k * length ys. F (out ! j) = foldl (set_last val) (F d) (take (Suc (j div k)) ys))))"

text \<open>
  The values that an address field can have for a list of addresses: absent, or the string
  of one address of the list.
\<close>

definition address_leaves :: "address list \<Rightarrow> leaf option list" where
  "address_leaves addrs = None # map (\<lambda>a. Some (StrV (str a))) addrs"

text \<open>
  Something was written under the family key when the \<open>j\<close>-th rule (from 0) of a term was
  appended: the term has a source or a destination address of the family \<open>af\<close>, or one of the
  first \<open>j + 1\<close> iterations of the protocol loop was for a protocol with a number (the
  protocol loop is the innermost, and it starts again on its list only after a full pass).
\<close>

definition family_set :: "(string \<times> int) list \<Rightarrow> policy_term \<Rightarrow> int \<Rightarrow> nat \<Rightarrow> bool" where
  "family_set PROTO_MAP t af j \<longleftrightarrow>
     \<not> (GetAddressOfVersion (flattened_saddr t) af = [] \<and>
        GetAddressOfVersion (flattened_daddr t) af = [] \<and>
        list_all (\<lambda>p. proto_number PROTO_MAP p = None) (take (Suc j) (protos_of t)))"

subsection \<open>Example inputs\<close>

text \<open>A protocol-name table, and terms and a policy on which the theorems are instantiated.\<close>

definition example_protos :: "(string \<times> int) list" where
  "example_protos = [(''icmp'', 1), (''ipip'', 4), (''tcp'', 6), (''udp'', 17)]"

definition example_always :: "string list" where
  "example_always = [''ipip'']"

definition example_term :: policy_term where
  "example_term =
     \<lparr>name = ''allow-web'', action = [''accept''],
      flattened_saddr = [\<lparr>version = 4, str = ''10.0.0.0/8''\<rparr>, \<lparr>version = 6, str = ''2001:db8::/32''\<rparr>,
                         \<lparr>version = 4, str = ''192.168.0.0/16''\<rparr>],
      flattened_daddr = [\<lparr>version = 4, str = ''172.16.0.0/12''\<rparr>],
      source_port = [(1024, 65535)], destination_port = [(80, 80), (443, 443)],
      protocol = [ProtoName ''tcp'', ProtoNum 17], option = [], comment = []\<rparr>"

definition established_term :: policy_term where
  "established_term =
     \<lparr>name = ''allow-return'', action = [''accept''],
      flattened_saddr = [\<lparr>version = 4, str = ''10.0.0.0/8''\<rparr>],
      flattened_daddr = [],
      source_port = [], destination_port = [(1024, 65535)],
      protocol = [ProtoName ''tcp''], option = [''tcp-established''], comment = []\<rparr>"


definition degenerate_term :: policy_term where
  "degenerate_term =
     \<lparr>name = ''any-any'', action = [''accept''],
      flattened_saddr = [], flattened_daddr = [],
      source_port = [], destination_port = [],
      protocol = [], option = [], comment = []\<rparr>"


definition sentinel_term :: policy_term where
  "sentinel_term =
     \<lparr>name = ''mixed-ports'', action = [''accept''],
      flattened_saddr = [], flattened_daddr = [],
      source_port = [(80, 80), (443, 443), (0, 0)], destination_port = [],
      protocol = [], option = [], comment = []\<rparr>"

definition stale_term :: policy_term where
  "stale_term =
     \<lparr>name = ''two-sources'', action = [''accept''],
      flattened_saddr = [\<lparr>version = 4, str = ''10.0.0.0/8''\<rparr>, \<lparr>version = 4, str = ''192.168.0.0/16''\<rparr>],
      flattened_daddr = [],
      source_port = [(0, 0), (80, 80)], destination_port = [],
      protocol = [], option = [], comment = []\<rparr>"

definition mixed_term1 :: policy_term where
  "mixed_term1 =
     \<lparr>name = ''t1'', action = [''accept''],
      flattened_saddr = [\<lparr>version = 4, str = ''10.0.0.0/8''\<rparr>, \<lparr>version = 6, str = ''2001:db8::/32''\<rparr>],
      flattened_daddr = [],
      source_port = [], destination_port = [],
      protocol = [], option = [], comment = []\<rparr>"

definition mixed_term2 :: policy_term where
  "mixed_term2 =
     \<lparr>name = ''t2'', action = [''deny''],
      flattened_saddr = [],
      flattened_daddr = [\<lparr>version = 6, str = ''2001:db8:1::/48''\<rparr>, \<lparr>version = 4, str = ''172.16.0.0/12''\<rparr>],
      source_port = [], destination_port = [],
      protocol = [], option = [], comment = []\<rparr>"

definition example_policy :: "(header \<times> policy_term list) list" where
  "example_policy =
     [(\<lparr>FilterOptions = [''mixed''], FilterName = ''edge'', header_comment = []\<rparr>,
       [mixed_term1, mixed_term2]),
      (\<lparr>FilterOptions = [], FilterName = ''core'', header_comment = []\<rparr>, [degenerate_term])]"

section \<open>Lemmas\<close>

subsection \<open>Dictionaries\<close>

lemma map_of_setitem2:
  "map_of (setitem2 a b v d) k = (if k = a then Some (AList.update b v (getitem d a)) else map_of d k)"
  by (simp add: setitem2_def update_conv')

lemma lookup3_setitem2:
  "lookup3 (setitem2 a b v d) a' b' c' =
     (if a' = a \<and> b' = b then map_of v c' else lookup3 d a' b' c')"
  by (auto simp: lookup3_def map_of_setitem2 update_conv' getitem_def split: option.splits)

lemma lookup3_setitem3:
  "lookup3 (setitem3 a b c v d) a' b' c' =
     (if a' = a \<and> b' = b \<and> c' = c then Some v else lookup3 d a' b' c')"
proof -
  have "map_of (getitem (getitem d a) b) c' = lookup3 d a b c'"
    by (simp add: lookup3_def getitem_def split: option.splits)
  then show ?thesis
    by (simp add: setitem3_def lookup3_setitem2 update_conv')
qed

subsection \<open>Loops that append rules\<close>

lemma emits_for_each:
  assumes "\<And>i. i < length xs \<Longrightarrow> emits P k (Q i) (body (xs ! i))"
  shows "emits P (k * length xs) (\<lambda>j. Q (j div k) (j mod k)) (for_each body xs)"
  using assms
proof (induction xs arbitrary: Q)
  case Nil
  show ?case by (simp add: emits_def)
next
  case (Cons x xs)
  have hd: "emits P k (Q 0) (body x)"
    using Cons.prems [of 0] by simp
  have "\<And>i. i < length xs \<Longrightarrow> emits P k (Q (Suc i)) (body (xs ! i))"
    using Cons.prems by fastforce
  then have tl: "emits P (k * length xs) (\<lambda>j. Q (Suc (j div k)) (j mod k)) (for_each body xs)"
    by (rule Cons.IH)
  show ?case
    unfolding emits_def
  proof (intro allI impI)
    fix d rules d' rules'
    assume P: "P d" and run: "for_each body (x # xs) (d, rules) = Inr (d', rules')"
    from run obtain d1 rules1 where b: "body x (d, rules) = Inr (d1, rules1)"
      and r: "for_each body xs (d1, rules1) = Inr (d', rules')"
      by (auto split: sum.splits)
    from hd P b obtain out1 where P1: "P d1" and o1: "rules1 = rules @ out1" "length out1 = k"
      "\<forall>j<k. Q 0 j (out1 ! j)"
      unfolding emits_def by blast
    from tl P1 r obtain out2 where P2: "P d'" and o2: "rules' = rules1 @ out2"
      "length out2 = k * length xs" "\<forall>j<k * length xs. Q (Suc (j div k)) (j mod k) (out2 ! j)"
      unfolding emits_def by blast
    have "\<forall>j<k * length (x # xs). Q (j div k) (j mod k) ((out1 @ out2) ! j)"
    proof (intro allI impI)
      fix j assume j: "j < k * length (x # xs)"
      show "Q (j div k) (j mod k) ((out1 @ out2) ! j)"
      proof (cases "j < k")
        case True
        then show ?thesis using o1 by (simp add: nth_append)
      next
        case False
        have k: "0 < k" using j by (cases k) simp_all
        have jk: "j - k < k * length xs" using j False by auto
        have "j div k = Suc ((j - k) div k)" "j mod k = (j - k) mod k"
          using False k by (simp_all add: le_div_geq le_mod_geq)
        then show ?thesis
          using o2(3) jk False o1(2) by (auto simp: nth_append)
      qed
    qed
    then show "P d' \<and> (\<exists>out. rules' = rules @ out \<and> length out = k * length (x # xs) \<and>
        (\<forall>j<k * length (x # xs). Q (j div k) (j mod k) (out ! j)))"
      using P2 o1 o2 by (intro conjI exI [of _ "out1 @ out2"]) simp_all
  qed
qed

lemma emits_level:
  assumes "emits P' k Q run" and "\<And>d. P d \<Longrightarrow> P' (f d)" and "\<And>d. P' d \<Longrightarrow> P d"
  shows "emits P k Q (\<lambda>s. run (f (fst s), snd s))"
  using assms unfolding emits_def by (metis fst_conv snd_conv)

lemma emits_weaken:
  assumes "emits P k Q run" and "\<And>j r. j < k \<Longrightarrow> Q j r \<Longrightarrow> Q' j r"
  shows "emits P k Q' run"
  using assms unfolding emits_def by metis

lemma dport_body_eq:
  "dport_body pm fam protos x = (\<lambda>s. for_each (proto_body pm fam) protos (dport_set x (fst s), snd s))"
  proof (rule ext)
  fix s show "dport_body pm fam protos x s = for_each (proto_body pm fam) protos (dport_set x (fst s), snd s)"
    by (cases s) (simp add: dport_set_def)
qed

lemma sport_body_eq:
  "sport_body pm fam dports protos x =
     (\<lambda>s. for_each (dport_body pm fam protos) dports (sport_set x (fst s), snd s))"
  proof (rule ext)
  fix s show "sport_body pm fam dports protos x s = for_each (dport_body pm fam protos) dports (sport_set x (fst s), snd s)"
    by (cases s) (simp add: sport_set_def)
qed

lemma daddr_body_eq:
  "daddr_body pm fam sports dports protos x =
     (\<lambda>s. for_each (sport_body pm fam dports protos) sports (daddr_set fam x (fst s), snd s))"
  proof (rule ext)
  fix s show "daddr_body pm fam sports dports protos x s = for_each (sport_body pm fam dports protos) sports (daddr_set fam x (fst s), snd s)"
    by (cases s) (simp add: daddr_set_def split: addr_item.splits)
qed

lemma saddr_body_eq:
  "saddr_body pm fam daddrs sports dports protos x =
     (\<lambda>s. for_each (daddr_body pm fam sports dports protos) daddrs (saddr_set fam x (fst s), snd s))"
  proof (rule ext)
  fix s show "saddr_body pm fam daddrs sports dports protos x s = for_each (daddr_body pm fam sports dports protos) daddrs (saddr_set fam x (fst s), snd s)"
    by (cases s) (simp add: saddr_set_def split: addr_item.splits)
qed

lemma emits_proto_body:
  assumes "\<And>n d. proto_number pm p = Some n \<Longrightarrow> I d \<Longrightarrow> I (SetProtocol fam n d)"
    and "\<And>n d. proto_number pm p = Some n \<Longrightarrow> Epr n (SetProtocol fam n d)"
  shows "emits I 1 (\<lambda>j r. I r \<and> (\<forall>n. proto_number pm p = Some n \<longrightarrow> Epr n r))
           (proto_body pm fam p)"
  using assms unfolding emits_def
  by (cases p) (auto simp: proto_number_def Let_def split: if_splits option.splits)

lemma nest_protos:
  assumes "\<And>n d. I d \<Longrightarrow> I (SetProtocol fam n d)"
    and "\<And>n d. Epr n (SetProtocol fam n d)"
  shows "emits I (length protos)
           (\<lambda>j r. I r \<and> (\<forall>n. proto_number pm (protos ! j) = Some n \<longrightarrow> Epr n r))
           (for_each (proto_body pm fam) protos)"
proof -
  have "emits I (1 * length protos)
          (\<lambda>j. (\<lambda>i _ r. I r \<and> (\<forall>n. proto_number pm (protos ! i) = Some n \<longrightarrow> Epr n r)) (j div 1) (j mod 1))
          (for_each (proto_body pm fam) protos)"
    by (rule emits_for_each) (rule emits_proto_body; simp add: assms)
  then show ?thesis by simp
qed

lemma emits_for_each_mod:
  assumes "\<And>x. x \<in> set xs \<Longrightarrow> emits P k Q (body x)"
  shows "emits P (k * length xs) (\<lambda>j. Q (j mod k)) (for_each body xs)"
  by (rule emits_for_each [where Q = "\<lambda>_. Q"]) (simp add: assms)

lemma nest_dports:
  assumes Ipr: "\<And>n d. I d \<Longrightarrow> I (SetProtocol fam n d)"
    and Idp: "\<And>x d. x \<in> set dports \<Longrightarrow> \<not> is_any_port x \<Longrightarrow> I d \<Longrightarrow> I (SetDestPorts (fst x) (snd x) d)"
    and Epr: "\<And>n d. Epr n (SetProtocol fam n d)"
    and Edp: "\<And>x d. Edp x (SetDestPorts (fst x) (snd x) d)"
    and Edp_pr: "\<And>x n d. Edp x d \<Longrightarrow> Edp x (SetProtocol fam n d)"
  shows "emits I (length protos * length dports)
           (\<lambda>j r. I r \<and> port_ok Edp dports (j div length protos) r
                      \<and> pr_ok Epr pm protos (j mod length protos) r)
           (for_each (dport_body pm fam protos) dports)"
proof (rule emits_for_each
    [where Q = "\<lambda>i j r. I r \<and> port_ok Edp dports i r \<and> pr_ok Epr pm protos j r"])
  fix i assume i: "i < length dports"
  define x where "x = dports ! i"
  define I' where "I' = (\<lambda>d. I d \<and> (\<not> is_any_port x \<longrightarrow> Edp x d))"
  have x: "x \<in> set dports" using i by (simp add: x_def)
  have "emits I' (length protos)
          (\<lambda>j r. I' r \<and> (\<forall>n. proto_number pm (protos ! j) = Some n \<longrightarrow> Epr n r))
          (for_each (proto_body pm fam) protos)"
    by (rule nest_protos) (auto simp: I'_def intro: Ipr Epr Edp_pr)
  then have "emits I (length protos)
          (\<lambda>j r. I' r \<and> (\<forall>n. proto_number pm (protos ! j) = Some n \<longrightarrow> Epr n r))
          (\<lambda>s. for_each (proto_body pm fam) protos (dport_set x (fst s), snd s))"
    by (rule emits_level) (auto simp: I'_def dport_set_def intro: Idp [OF x] Edp)
  then show "emits I (length protos)
          (\<lambda>j r. I r \<and> port_ok Edp dports i r \<and> pr_ok Epr pm protos j r)
          (dport_body pm fam protos (dports ! i))"
    unfolding dport_body_eq x_def [symmetric]
    by (rule emits_weaken) (simp add: I'_def port_ok_def pr_ok_def x_def)
qed

lemma nest_sports:
  assumes Ipr: "\<And>n d. I d \<Longrightarrow> I (SetProtocol fam n d)"
    and Idp: "\<And>x d. x \<in> set dports \<Longrightarrow> \<not> is_any_port x \<Longrightarrow> I d \<Longrightarrow> I (SetDestPorts (fst x) (snd x) d)"
    and Isp: "\<And>x d. x \<in> set sports \<Longrightarrow> \<not> is_any_port x \<Longrightarrow> I d \<Longrightarrow> I (SetSourcePorts (fst x) (snd x) d)"
    and Epr: "\<And>n d. Epr n (SetProtocol fam n d)"
    and Edp: "\<And>x d. Edp x (SetDestPorts (fst x) (snd x) d)"
    and Edp_pr: "\<And>x n d. Edp x d \<Longrightarrow> Edp x (SetProtocol fam n d)"
    and Esp: "\<And>x d. Esp x (SetSourcePorts (fst x) (snd x) d)"
    and Esp_pr: "\<And>x n d. Esp x d \<Longrightarrow> Esp x (SetProtocol fam n d)"
    and Esp_dp: "\<And>x y d. Esp x d \<Longrightarrow> Esp x (SetDestPorts (fst y) (snd y) d)"
  shows "emits I (length protos * length dports * length sports)
           (\<lambda>j r. I r \<and> port_ok Esp sports (j div (length protos * length dports)) r
                      \<and> port_ok Edp dports (j mod (length protos * length dports) div length protos) r
                      \<and> pr_ok Epr pm protos (j mod (length protos * length dports) mod length protos) r)
           (for_each (sport_body pm fam dports protos) sports)"
proof (rule emits_for_each
    [where Q = "\<lambda>i j r. I r \<and> port_ok Esp sports i r \<and> port_ok Edp dports (j div length protos) r
                   \<and> pr_ok Epr pm protos (j mod length protos) r"])
  fix i assume i: "i < length sports"
  define x where "x = sports ! i"
  define I' where "I' = (\<lambda>d. I d \<and> (\<not> is_any_port x \<longrightarrow> Esp x d))"
  have x: "x \<in> set sports" using i by (simp add: x_def)
  have "emits I' (length protos * length dports)
          (\<lambda>j r. I' r \<and> port_ok Edp dports (j div length protos) r
                      \<and> pr_ok Epr pm protos (j mod length protos) r)
          (for_each (dport_body pm fam protos) dports)"
    by (rule nest_dports) (auto simp: I'_def intro: Ipr Idp Epr Edp Edp_pr Esp_pr Esp_dp)
  then have "emits I (length protos * length dports)
          (\<lambda>j r. I' r \<and> port_ok Edp dports (j div length protos) r
                      \<and> pr_ok Epr pm protos (j mod length protos) r)
          (\<lambda>s. for_each (dport_body pm fam protos) dports (sport_set x (fst s), snd s))"
    by (rule emits_level) (auto simp: I'_def sport_set_def intro: Isp [OF x] Esp)
  then show "emits I (length protos * length dports)
          (\<lambda>j r. I r \<and> port_ok Esp sports i r \<and> port_ok Edp dports (j div length protos) r
                   \<and> pr_ok Epr pm protos (j mod length protos) r)
          (sport_body pm fam dports protos (sports ! i))"
    unfolding sport_body_eq x_def [symmetric]
    by (rule emits_weaken) (simp add: I'_def port_ok_def x_def)
qed

lemma mod_mult_div_nat: "j mod (k * m) div k = j div k mod (m::nat)"
  by (cases "k = 0") (simp_all add: mod_mult2_eq)

lemma mod_mult_mod_nat: "j mod (k * m) mod k = j mod (k::nat)"
  by (simp add: mod_mod_cancel)

lemma entry_ok_mod:
  "entry_ok I Esp Edp Epr pm sports dports protos
     (j mod (length protos * length dports * length sports))
   = entry_ok I Esp Edp Epr pm sports dports protos j"
proof (rule ext)
  fix r
  let ?kp = "length protos" and ?kd = "length dports" and ?ks = "length sports"
  let ?j = "j mod (?kp * ?kd * ?ks)"
  have 1: "?j div (?kp * ?kd) mod ?ks = j div (?kp * ?kd) mod ?ks"
    by (simp add: mod_mult_div_nat)
  have "?j div ?kp = j div ?kp mod (?kd * ?ks)"
    using mod_mult_div_nat [of j ?kp "?kd * ?ks"] by (simp add: mult.assoc)
  then have 2: "?j div ?kp mod ?kd = j div ?kp mod ?kd"
    by (simp add: mod_mult_mod_nat)
  have 3: "?j mod ?kp = j mod ?kp"
    using mod_mult_mod_nat [of j ?kp "?kd * ?ks"] by (simp add: mult.assoc)
  show "entry_ok I Esp Edp Epr pm sports dports protos ?j r
      = entry_ok I Esp Edp Epr pm sports dports protos j r"
    unfolding entry_ok_def 1 2 3 ..
qed

lemma nest_sports_entry_ok:
  assumes Ipr: "\<And>n d. I d \<Longrightarrow> I (SetProtocol fam n d)"
    and Idp: "\<And>x d. x \<in> set dports \<Longrightarrow> \<not> is_any_port x \<Longrightarrow> I d \<Longrightarrow> I (SetDestPorts (fst x) (snd x) d)"
    and Isp: "\<And>x d. x \<in> set sports \<Longrightarrow> \<not> is_any_port x \<Longrightarrow> I d \<Longrightarrow> I (SetSourcePorts (fst x) (snd x) d)"
    and Epr: "\<And>n d. Epr n (SetProtocol fam n d)"
    and Edp: "\<And>x d. Edp x (SetDestPorts (fst x) (snd x) d)"
    and Edp_pr: "\<And>x n d. Edp x d \<Longrightarrow> Edp x (SetProtocol fam n d)"
    and Esp: "\<And>x d. Esp x (SetSourcePorts (fst x) (snd x) d)"
    and Esp_pr: "\<And>x n d. Esp x d \<Longrightarrow> Esp x (SetProtocol fam n d)"
    and Esp_dp: "\<And>x y d. Esp x d \<Longrightarrow> Esp x (SetDestPorts (fst y) (snd y) d)"
  shows "emits I (length protos * length dports * length sports)
           (entry_ok I Esp Edp Epr pm sports dports protos)
           (for_each (sport_body pm fam dports protos) sports)"
proof (rule emits_weaken [OF nest_sports [of I fam dports sports Epr Edp Esp protos pm]])
  fix j r
  assume j: "j < length protos * length dports * length sports"
    and Q: "I r \<and> port_ok Esp sports (j div (length protos * length dports)) r
                      \<and> port_ok Edp dports (j mod (length protos * length dports) div length protos) r
                      \<and> pr_ok Epr pm protos (j mod (length protos * length dports) mod length protos) r"
  have "j div (length protos * length dports) < length sports"
    using j by (simp add: less_mult_imp_div_less mult.commute)
  then have 1: "j div (length protos * length dports) mod length sports = j div (length protos * length dports)"
    by simp
  show "entry_ok I Esp Edp Epr pm sports dports protos j r"
    using Q unfolding entry_ok_def 1 by (simp add: mod_mult_div_nat mod_mult_mod_nat)
qed (fact assms)+

lemma nest_saddrs:
  assumes Ipr: "\<And>n d. I d \<Longrightarrow> I (SetProtocol fam n d)"
    and Idp: "\<And>x d. x \<in> set dports \<Longrightarrow> \<not> is_any_port x \<Longrightarrow> I d \<Longrightarrow> I (SetDestPorts (fst x) (snd x) d)"
    and Isp: "\<And>x d. x \<in> set sports \<Longrightarrow> \<not> is_any_port x \<Longrightarrow> I d \<Longrightarrow> I (SetSourcePorts (fst x) (snd x) d)"
    and Ida: "\<And>a d. I d \<Longrightarrow> I (SetDestAddress fam a d)"
    and Isa: "\<And>a d. I d \<Longrightarrow> I (SetSourceAddress fam a d)"
    and Epr: "\<And>n d. Epr n (SetProtocol fam n d)"
    and Edp: "\<And>x d. Edp x (SetDestPorts (fst x) (snd x) d)"
    and Edp_pr: "\<And>x n d. Edp x d \<Longrightarrow> Edp x (SetProtocol fam n d)"
    and Esp: "\<And>x d. Esp x (SetSourcePorts (fst x) (snd x) d)"
    and Esp_pr: "\<And>x n d. Esp x d \<Longrightarrow> Esp x (SetProtocol fam n d)"
    and Esp_dp: "\<And>x y d. Esp x d \<Longrightarrow> Esp x (SetDestPorts (fst y) (snd y) d)"
  shows "emits I (length protos * length dports * length sports * length daddrs * length saddrs)
           (entry_ok I Esp Edp Epr pm sports dports protos)
           (for_each (saddr_body pm fam daddrs sports dports protos) saddrs)"
proof -
  let ?K = "length protos * length dports * length sports"
  let ?Q = "entry_ok I Esp Edp Epr pm sports dports protos"
  have sp: "emits I ?K ?Q (for_each (sport_body pm fam dports protos) sports)"
    by (rule nest_sports_entry_ok) (fact assms)+
  have da: "emits I (?K * length daddrs) ?Q (for_each (daddr_body pm fam sports dports protos) daddrs)"
  proof -
    have "emits I (?K * length daddrs) (\<lambda>j. ?Q (j mod ?K))
            (for_each (daddr_body pm fam sports dports protos) daddrs)"
    proof (rule emits_for_each_mod)
      fix x
      show "emits I ?K ?Q (daddr_body pm fam sports dports protos x)"
        unfolding daddr_body_eq
        by (rule emits_level [OF sp]) (auto simp: daddr_set_def intro: Ida split: addr_item.splits)
    qed
    then show ?thesis by (simp add: entry_ok_mod)
  qed
  have "emits I (?K * length daddrs * length saddrs) (\<lambda>j. ?Q (j mod (?K * length daddrs)))
          (for_each (saddr_body pm fam daddrs sports dports protos) saddrs)"
  proof (rule emits_for_each_mod)
    fix x
    show "emits I (?K * length daddrs) ?Q (saddr_body pm fam daddrs sports dports protos x)"
      unfolding saddr_body_eq
      by (rule emits_level [OF da]) (auto simp: saddr_set_def intro: Isa split: addr_item.splits)
  qed
  moreover have "?Q (j mod (?K * length daddrs)) = ?Q j" for j
    using entry_ok_mod [of I Esp Edp Epr pm sports dports protos "j mod (?K * length daddrs)"]
      entry_ok_mod [of I Esp Edp Epr pm sports dports protos j]
    by (simp add: mod_mult_mod_nat)
  ultimately show ?thesis by simp
qed

subsection \<open>When the conversion raises nothing\<close>

lemma length_addrs_or_any [simp]: "length (addrs_or_any xs) = dim xs"
  by (simp add: addrs_or_any_def dim_def)

lemma length_sports_of [simp]: "length (sports_of t) = dim (source_port t)"
  by (simp add: sports_of_def dim_def)

lemma length_dports_of [simp]: "length (dports_of t) = dim (destination_port t)"
  by (simp add: dports_of_def dim_def)

lemma length_protos_of [simp]: "length (protos_of t) = dim (protocol t)"
  by (simp add: protos_of_def dim_def)

lemma dim_pos [simp]: "0 < dim xs"
  by (simp add: dim_def)

lemma for_each_succeeds:
  assumes "\<And>x s. x \<in> set xs \<Longrightarrow> \<exists>s'. body x s = Inr s'"
  shows "\<exists>s'. for_each body xs s = Inr s'"
  using assms
proof (induction xs arbitrary: s)
  case Nil
  show ?case by simp
next
  case (Cons x xs)
  from Cons.prems [of x s] obtain s1 where "body x s = Inr s1" by auto
  moreover from Cons.IH [of s1] Cons.prems obtain s2 where "for_each body xs s1 = Inr s2" by auto
  ultimately show ?case by simp
qed

lemma proto_body_succeeds: "proto_known pm p \<Longrightarrow> \<exists>s'. proto_body pm fam p s = Inr s'"
  by (cases p; cases s) (auto simp: proto_known_def Let_def)

lemma nest_succeeds:
  assumes "\<forall>p\<in>set protos. proto_known pm p"
  shows "\<exists>s'. for_each (saddr_body pm fam daddrs sports dports protos) saddrs s = Inr s'"
proof -
  have pr: "\<exists>s'. for_each (proto_body pm fam) protos s = Inr s'" for s
    using assms by (intro for_each_succeeds proto_body_succeeds) simp
  have dp: "\<exists>s'. for_each (dport_body pm fam protos) dports s = Inr s'" for s
    by (rule for_each_succeeds) (unfold dport_body_eq, rule pr)
  have sp: "\<exists>s'. for_each (sport_body pm fam dports protos) sports s = Inr s'" for s
    by (rule for_each_succeeds) (unfold sport_body_eq, rule dp)
  have da: "\<exists>s'. for_each (daddr_body pm fam sports dports protos) daddrs s = Inr s'" for s
    by (rule for_each_succeeds) (unfold daddr_body_eq, rule sp)
  show ?thesis
    by (rule for_each_succeeds) (unfold saddr_body_eq, rule da)
qed

lemma AF_MAP_cases: "map_of AF_MAP iv = Some af \<longleftrightarrow> (iv = ''inet'' \<and> af = 4) \<or> (iv = ''inet6'' \<and> af = 6)"
  by (auto simp: AF_MAP_def)

lemma AF_RENAME_cases: "map_of AF_RENAME af = Some fam \<longleftrightarrow> (af = 4 \<and> fam = ''ipv4'') \<or> (af = 6 \<and> fam = ''ipv6'')"
  by (auto simp: AF_RENAME_def)

lemma SetAction_Inr: "(\<exists>d0. SetAction t d = Inr d0) \<longleftrightarrow> action_ok t"
  by (auto simp: SetAction_def action_ok_def split: list.splits option.splits)

lemma SetOptions_Inr: "(\<exists>d1. SetOptions t d = Inr d1) \<longleftrightarrow> options_ok t"
  by (auto simp: SetOptions_def options_ok_def)

lemma ConvertToDict_Inr_iff:
  "(\<exists>rules. ConvertToDict pm t iv fo = Inr rules) \<longleftrightarrow>
     (\<exists>af fam d0 d1 s. map_of AF_MAP iv = Some af \<and> map_of AF_RENAME af = Some fam \<and>
        SetAction t [] = Inr d0 \<and> SetOptions t d0 = Inr d1 \<and>
        for_each (saddr_body pm fam (addrs_or_any (GetAddressOfVersion (flattened_daddr t) af))
                    (sports_of t) (dports_of t) (protos_of t))
          (addrs_or_any (GetAddressOfVersion (flattened_saddr t) af)) (d1, []) = Inr s)"
  by (auto simp: ConvertToDict_def split: option.splits sum.splits)

lemma ConvertToDict_InrD:
  assumes "ConvertToDict pm t iv fo = Inr rules"
  obtains af fam d0 d1 d where "map_of AF_MAP iv = Some af" "map_of AF_RENAME af = Some fam"
    "SetAction t [] = Inr d0" "SetOptions t d0 = Inr d1"
    "for_each (saddr_body pm fam (addrs_or_any (GetAddressOfVersion (flattened_daddr t) af))
                    (sports_of t) (dports_of t) (protos_of t))
          (addrs_or_any (GetAddressOfVersion (flattened_saddr t) af)) (d1, []) = Inr (d, rules)"
  using assms by (auto simp: ConvertToDict_def split: option.splits sum.splits)

lemma ConvertToDict_succeeds:
  assumes "map_of AF_MAP iv \<noteq> None" "action_ok t" "options_ok t" "\<forall>p\<in>set (protocol t). proto_known pm p"
  shows "\<exists>rules. ConvertToDict pm t iv fo = Inr rules"
proof -
  from assms(1) obtain af where af: "map_of AF_MAP iv = Some af" by auto
  then obtain fam where fam: "map_of AF_RENAME af = Some fam"
    by (auto simp: AF_MAP_cases AF_RENAME_cases)
  from assms(2) obtain d0 where d0: "SetAction t [] = Inr d0" using SetAction_Inr by blast
  from assms(3) obtain d1 where d1: "SetOptions t d0 = Inr d1" using SetOptions_Inr by blast
  have "\<forall>p\<in>set (protos_of t). proto_known pm p"
    using assms(4) by (simp add: protos_of_def proto_known_def)
  from nest_succeeds [OF this] obtain s where
    "for_each (saddr_body pm fam (addrs_or_any (GetAddressOfVersion (flattened_daddr t) af))
                    (sports_of t) (dports_of t) (protos_of t))
          (addrs_or_any (GetAddressOfVersion (flattened_saddr t) af)) (d1, []) = Inr s"
    by blast
  with af fam d0 d1 show ?thesis
    unfolding ConvertToDict_Inr_iff by blast
qed

lemma ConvertToDict_entries:
  assumes conv: "ConvertToDict pm t iv fo = Inr rules"
    and af: "map_of AF_MAP iv = Some af" and fam: "map_of AF_RENAME af = Some fam"
    and I0: "\<And>d0 d1. SetAction t [] = Inr d0 \<Longrightarrow> SetOptions t d0 = Inr d1 \<Longrightarrow> I d1"
    and Ipr: "\<And>n d. I d \<Longrightarrow> I (SetProtocol fam n d)"
    and Idp: "\<And>x d. x \<in> set (dports_of t) \<Longrightarrow> \<not> is_any_port x \<Longrightarrow> I d \<Longrightarrow> I (SetDestPorts (fst x) (snd x) d)"
    and Isp: "\<And>x d. x \<in> set (sports_of t) \<Longrightarrow> \<not> is_any_port x \<Longrightarrow> I d \<Longrightarrow> I (SetSourcePorts (fst x) (snd x) d)"
    and Ida: "\<And>a d. I d \<Longrightarrow> I (SetDestAddress fam a d)"
    and Isa: "\<And>a d. I d \<Longrightarrow> I (SetSourceAddress fam a d)"
    and Epr: "\<And>n d. Epr n (SetProtocol fam n d)"
    and Edp: "\<And>x d. Edp x (SetDestPorts (fst x) (snd x) d)"
    and Edp_pr: "\<And>x n d. Edp x d \<Longrightarrow> Edp x (SetProtocol fam n d)"
    and Esp: "\<And>x d. Esp x (SetSourcePorts (fst x) (snd x) d)"
    and Esp_pr: "\<And>x n d. Esp x d \<Longrightarrow> Esp x (SetProtocol fam n d)"
    and Esp_dp: "\<And>x y d. Esp x d \<Longrightarrow> Esp x (SetDestPorts (fst y) (snd y) d)"
  shows "length rules =
           dim (protocol t) * dim (destination_port t) * dim (source_port t) *
           dim (GetAddressOfVersion (flattened_daddr t) af) *
           dim (GetAddressOfVersion (flattened_saddr t) af)"
    and "\<forall>i<length rules. entry_ok I Esp Edp Epr pm (sports_of t) (dports_of t) (protos_of t) i (rules ! i)"
proof -
  let ?daddrs = "addrs_or_any (GetAddressOfVersion (flattened_daddr t) af)"
  let ?saddrs = "addrs_or_any (GetAddressOfVersion (flattened_saddr t) af)"
  from conv af fam obtain d0 d1 d where d0: "SetAction t [] = Inr d0" and d1: "SetOptions t d0 = Inr d1"
    and run: "for_each (saddr_body pm fam ?daddrs (sports_of t) (dports_of t) (protos_of t))
          ?saddrs (d1, []) = Inr (d, rules)"
    by (auto elim!: ConvertToDict_InrD)
  have "emits I (length (protos_of t) * length (dports_of t) * length (sports_of t) * length ?daddrs * length ?saddrs)
           (entry_ok I Esp Edp Epr pm (sports_of t) (dports_of t) (protos_of t))
           (for_each (saddr_body pm fam ?daddrs (sports_of t) (dports_of t) (protos_of t)) ?saddrs)"
    by (rule nest_saddrs) (fact assms)+
  with run I0 [OF d0 d1] have "length rules = length (protos_of t) * length (dports_of t) * length (sports_of t) * length ?daddrs * length ?saddrs
       \<and> (\<forall>j<length rules. entry_ok I Esp Edp Epr pm (sports_of t) (dports_of t) (protos_of t) j (rules ! j))"
    unfolding emits_def by fastforce
  then show "length rules =
           dim (protocol t) * dim (destination_port t) * dim (source_port t) *
           dim (GetAddressOfVersion (flattened_daddr t) af) *
           dim (GetAddressOfVersion (flattened_saddr t) af)"
    and "\<forall>i<length rules. entry_ok I Esp Edp Epr pm (sports_of t) (dports_of t) (protos_of t) i (rules ! i)"
    by simp_all
qed

subsection \<open>What the setters change\<close>

lemma lookup3_SetProtocol:
  "lookup3 (SetProtocol fam n d) a b c =
     (if a = fam \<and> b = ''config'' \<and> c = ''protocol'' then Some (IntV n) else lookup3 d a b c)"
  by (simp add: SetProtocol_def lookup3_setitem3)

lemma lookup3_SetSourcePorts:
  "lookup3 (SetSourcePorts s e d) a b c =
     (if a = ''transport'' \<and> b = ''config'' \<and> c = ''source-port'' then Some (port_value s e)
      else lookup3 d a b c)"
  by (simp add: SetSourcePorts_def lookup3_setitem3)

lemma lookup3_SetDestPorts:
  "lookup3 (SetDestPorts s e d) a b c =
     (if a = ''transport'' \<and> b = ''config'' \<and> c = ''destination-port'' then Some (port_value s e)
      else lookup3 d a b c)"
  by (simp add: SetDestPorts_def lookup3_setitem3)

lemma lookup3_SetSourceAddress:
  "lookup3 (SetSourceAddress fam x d) a b c =
     (if a = fam \<and> b = ''config'' \<and> c = ''source-address'' then Some (StrV x) else lookup3 d a b c)"
  by (simp add: SetSourceAddress_def lookup3_setitem3)

lemma lookup3_SetDestAddress:
  "lookup3 (SetDestAddress fam x d) a b c =
     (if a = fam \<and> b = ''config'' \<and> c = ''destination-address'' then Some (StrV x)
      else lookup3 d a b c)"
  by (simp add: SetDestAddress_def lookup3_setitem3)

lemmas lookup3_setters =
  lookup3_SetProtocol lookup3_SetSourcePorts lookup3_SetDestPorts lookup3_SetSourceAddress
  lookup3_SetDestAddress

lemma SetAction_empty:
  "SetAction t [] = Inr d0 \<Longrightarrow>
     \<exists>act. d0 = [(''actions'', [(''config'', [(''forwarding-action'', StrV act)])])]"
  by (auto simp: SetAction_def setitem3_def setitem2_def getitem_def split: list.splits option.splits)

lemma SetOptions_marker:
  assumes "SetOptions t d0 = Inr d1" and "''tcp-established'' \<in> set (option t)"
  shows "lookup3 d1 ''transport'' ''config'' ''detail-mode'' = Some (StrV ''BUILTIN'')"
    and "lookup3 d1 ''transport'' ''config'' ''builtin-detail'' = Some (StrV ''TCP_ESTABLISHED'')"
  using assms
  by (auto simp: SetOptions_def lookup3_setitem2 dict_update_def tcp_established_def update_conv'
      split: if_splits)

lemma SetOptions_conflict:
  assumes "''tcp-established'' \<in> set (option t)" and "protocol t \<noteq> [ProtoName ''tcp'']"
  shows "SetOptions t d =
           Inl (TcpEstablishedWithNonTcpError
                 (''tcp-established can only be used with tcp protocol in term '' @ name t))"
  using assms by (auto simp: SetOptions_def)

lemma ConvertToDict_conflict:
  assumes "map_of AF_MAP iv = Some af" and "action_ok t"
    and "''tcp-established'' \<in> set (option t)" and "protocol t \<noteq> [ProtoName ''tcp'']"
  shows "ConvertToDict pm t iv fo =
           Inl (TcpEstablishedWithNonTcpError
                 (''tcp-established can only be used with tcp protocol in term '' @ name t))"
proof -
  from assms(1) obtain fam where fam: "map_of AF_RENAME af = Some fam"
    by (auto simp: AF_MAP_cases AF_RENAME_cases)
  from assms(2) obtain d0 where d0: "SetAction t [] = Inr d0" using SetAction_Inr by blast
  show ?thesis
    by (simp add: ConvertToDict_def assms(1) fam d0 SetOptions_conflict [OF assms(3,4)])
qed

subsection \<open>An unknown protocol name\<close>




lemma addrs_or_any_nonempty [simp]: "addrs_or_any xs \<noteq> []"
  by (simp add: addrs_or_any_def)

lemma sports_of_nonempty [simp]: "sports_of t \<noteq> []"
  by (simp add: sports_of_def)

lemma dports_of_nonempty [simp]: "dports_of t \<noteq> []"
  by (simp add: dports_of_def)

subsection \<open>The working dictionary before the loops\<close>

lemma initial_lookup3:
  assumes "SetAction t [] = Inr d0" and "SetOptions t d0 = Inr d1" and "lookup3 d1 a b c \<noteq> None"
  shows "a = ''actions'' \<and> b = ''config'' \<and> c = ''forwarding-action'' \<or>
         a = ''transport'' \<and> b = ''config'' \<and> (c = ''detail-mode'' \<or> c = ''builtin-detail'')"
proof -
  from assms(1) obtain act where d0: "d0 = [(''actions'', [(''config'', [(''forwarding-action'', StrV act)])])]"
    using SetAction_empty by blast
  have 0: "lookup3 d0 a b c \<noteq> None \<Longrightarrow> a = ''actions'' \<and> b = ''config'' \<and> c = ''forwarding-action''"
    unfolding d0 lookup3_def by (simp split: if_splits)
  have g: "getitem (getitem d0 ''transport'') ''config'' = []"
    unfolding d0 getitem_def by simp
  have m: "map_of (dict_update tcp_established []) c \<noteq> None \<Longrightarrow>
             c = ''detail-mode'' \<or> c = ''builtin-detail''"
    unfolding dict_update_def tcp_established_def by (simp split: if_splits)
  from assms(2) have "d1 = d0 \<or>
      d1 = setitem2 ''transport'' ''config''
             (dict_update tcp_established (getitem (getitem d0 ''transport'') ''config'')) d0"
    unfolding SetOptions_def by (simp split: if_splits)
  then show ?thesis
  proof
    assume "d1 = d0"
    with assms(3) 0 show ?thesis by simp
  next
    assume eq: "d1 = setitem2 ''transport'' ''config''
             (dict_update tcp_established (getitem (getitem d0 ''transport'') ''config'')) d0"
    have "lookup3 d1 a b c = (if a = ''transport'' \<and> b = ''config''
                         then map_of (dict_update tcp_established []) c
                         else lookup3 d0 a b c)"
      unfolding eq g by (rule lookup3_setitem2)
    with assms(3) have "(if a = ''transport'' \<and> b = ''config''
                         then map_of (dict_update tcp_established []) c
                         else lookup3 d0 a b c) \<noteq> None"
      by simp
    then show ?thesis
      using 0 m by (cases "a = ''transport'' \<and> b = ''config''") simp_all
  qed
qed

subsection \<open>Evaluating the model on the examples\<close>

lemmas eval_defs =
  ConvertToDict_def AF_MAP_def AF_RENAME_def SetAction_def ACTION_MAP_def SetOptions_def
  addrs_or_any_def GetAddressOfVersion_def sports_of_def dports_of_def protos_of_def
  is_any_port_def Let_def setitem3_def setitem2_def getitem_def SetProtocol_def
  SetSourcePorts_def SetDestPorts_def SetSourceAddress_def SetDestAddress_def port_value_def
  dict_update_def tcp_established_def

lemma ConvertToDict_length:
  assumes "ConvertToDict pm t iv fo = Inr rules" and "map_of AF_MAP iv = Some af"
  shows "length rules =
           dim (protocol t) * dim (destination_port t) * dim (source_port t) *
           dim (GetAddressOfVersion (flattened_daddr t) af) *
           dim (GetAddressOfVersion (flattened_saddr t) af)"
proof -
  from assms(2) obtain fam where fam: "map_of AF_RENAME af = Some fam"
    by (auto simp: AF_MAP_cases AF_RENAME_cases)
  show ?thesis
    by (rule ConvertToDict_entries(1)
        [OF assms fam, where I = "\<lambda>_. True" and Epr = "\<lambda>_ _. True" and Edp = "\<lambda>_ _. True"
          and Esp = "\<lambda>_ _. True"]) simp_all
qed

lemma example_term_rules:
  "\<exists>rules. ConvertToDict example_protos example_term ''inet'' [] = Inr rules \<and> length rules = 8"
proof -
  have af: "map_of AF_MAP ''inet'' = Some 4" by (simp add: AF_MAP_def)
  have "\<exists>rules. ConvertToDict example_protos example_term ''inet'' [] = Inr rules"
    by (rule ConvertToDict_succeeds)
      (simp_all add: AF_MAP_def action_ok_def options_ok_def proto_known_def example_term_def
        example_protos_def ACTION_MAP_def)
  then obtain rules where conv: "ConvertToDict example_protos example_term ''inet'' [] = Inr rules" ..
  have "length rules = 8"
    unfolding ConvertToDict_length [OF conv af]
    by (simp add: dim_def GetAddressOfVersion_def example_term_def)
  with conv show ?thesis by blast
qed

subsection \<open>No field is ever removed\<close>

lemma keeps_refl [simp]: "keeps d d"
  by (simp add: keeps_def)

lemma keeps_trans: "keeps d1 d2 \<Longrightarrow> keeps d2 d3 \<Longrightarrow> keeps d1 d3"
  by (simp add: keeps_def)

lemma keeps_setitem3: "keeps d (setitem3 a b c v d)"
  by (simp add: keeps_def lookup3_setitem3)

lemma keeps_setters:
  "keeps d (SetProtocol fam n d)" "keeps d (dport_set x d)" "keeps d (sport_set x d)"
  "keeps d (daddr_set fam y d)" "keeps d (saddr_set fam y d)"
  by (simp_all add: SetProtocol_def dport_set_def sport_set_def daddr_set_def saddr_set_def
      SetDestPorts_def SetSourcePorts_def SetDestAddress_def SetSourceAddress_def keeps_setitem3
      split: addr_item.splits)

lemma chain_for_each:
  assumes "\<And>x. x \<in> set xs \<Longrightarrow> chain (body x)"
  shows "chain (for_each body xs)"
  using assms
proof (induction xs)
  case Nil
  show ?case by (simp add: chain_def)
next
  case (Cons x xs)
  have hd: "chain (body x)" and tl: "chain (for_each body xs)"
    using Cons by simp_all
  show ?case
    unfolding chain_def
  proof (intro allI impI)
    fix d rules d' rules'
    assume run: "for_each body (x # xs) (d, rules) = Inr (d', rules')"
    then obtain d1 rules1 where b: "body x (d, rules) = Inr (d1, rules1)"
      and r: "for_each body xs (d1, rules1) = Inr (d', rules')"
      by (auto split: sum.splits)
    from hd b obtain out1 where k1: "keeps d d1" and o1: "rules1 = rules @ out1"
      "\<forall>r\<in>set out1. keeps d r \<and> keeps r d1" "sorted_wrt keeps out1"
      unfolding chain_def by blast
    from tl r obtain out2 where k2: "keeps d1 d'" and o2: "rules' = rules1 @ out2"
      "\<forall>r\<in>set out2. keeps d1 r \<and> keeps r d'" "sorted_wrt keeps out2"
      unfolding chain_def by blast
    have "\<forall>r\<in>set (out1 @ out2). keeps d r \<and> keeps r d'"
      using o1(2) o2(2) k1 k2 by (auto intro: keeps_trans)
    moreover have "sorted_wrt keeps (out1 @ out2)"
      using o1(2,3) o2(2,3) by (auto simp: sorted_wrt_append intro: keeps_trans)
    ultimately show "keeps d d' \<and>
        (\<exists>out. rules' = rules @ out \<and> (\<forall>r\<in>set out. keeps d r \<and> keeps r d') \<and> sorted_wrt keeps out)"
      using k1 k2 o1(1) o2(1) by (intro conjI exI [of _ "out1 @ out2"]) (auto intro: keeps_trans)
  qed
qed

lemma chain_level:
  assumes "chain run" and "\<And>d. keeps d (f d)"
  shows "chain (\<lambda>s. run (f (fst s), snd s))"
  unfolding chain_def
proof (intro allI impI)
  fix d rules d' rules'
  assume "run (f (fst (d, rules)), snd (d, rules)) = Inr (d', rules')"
  then have "run (f d, rules) = Inr (d', rules')" by simp
  with assms(1) obtain out where k: "keeps (f d) d'" and o: "rules' = rules @ out"
    "\<forall>r\<in>set out. keeps (f d) r \<and> keeps r d'" "sorted_wrt keeps out"
    unfolding chain_def by blast
  from k o assms(2) [of d] show "keeps d d' \<and>
        (\<exists>out. rules' = rules @ out \<and> (\<forall>r\<in>set out. keeps d r \<and> keeps r d') \<and> sorted_wrt keeps out)"
    by (intro conjI exI [of _ out]) (auto intro: keeps_trans)
qed

lemma chain_proto_body: "chain (proto_body pm fam p)"
  unfolding chain_def
  by (cases p) (auto simp: Let_def keeps_setters split: if_splits option.splits)

lemma chain_nest:
  "chain (for_each (saddr_body pm fam daddrs sports dports protos) saddrs)"
proof -
  have pr: "chain (for_each (proto_body pm fam) protos)"
    by (rule chain_for_each) (rule chain_proto_body)
  have dp: "chain (for_each (dport_body pm fam protos) dports)"
    by (rule chain_for_each) (unfold dport_body_eq, rule chain_level [OF pr], rule keeps_setters)
  have sp: "chain (for_each (sport_body pm fam dports protos) sports)"
    by (rule chain_for_each) (unfold sport_body_eq, rule chain_level [OF dp], rule keeps_setters)
  have da: "chain (for_each (daddr_body pm fam sports dports protos) daddrs)"
    by (rule chain_for_each) (unfold daddr_body_eq, rule chain_level [OF sp], rule keeps_setters)
  show ?thesis
    by (rule chain_for_each) (unfold saddr_body_eq, rule chain_level [OF da], rule keeps_setters)
qed

lemma ConvertToDict_keeps:
  assumes "ConvertToDict pm t iv fo = Inr rules" and "i \<le> j" and "j < length rules"
  shows "keeps (rules ! i) (rules ! j)"
proof -
  from assms(1) obtain af fam d1 d where
    "for_each (saddr_body pm fam (addrs_or_any (GetAddressOfVersion (flattened_daddr t) af))
                    (sports_of t) (dports_of t) (protos_of t))
          (addrs_or_any (GetAddressOfVersion (flattened_saddr t) af)) (d1, []) = Inr (d, rules)"
    by (auto elim!: ConvertToDict_InrD)
  with chain_nest have "sorted_wrt keeps rules"
    unfolding chain_def by fastforce
  then show ?thesis
    using assms(2,3) by (cases "i = j") (auto simp: sorted_wrt_iff_nth_less)
qed

subsection \<open>Following a field through the loops\<close>

lemma tracks_seq:
  assumes 1: "tracks F val k ys1 run1" and 2: "tracks F val k ys2 run2"
    and run: "\<And>s. run s = (case run1 s of Inl e \<Rightarrow> Inl e | Inr s' \<Rightarrow> run2 s')"
  shows "tracks F val k (ys1 @ ys2) run"
  unfolding tracks_def
proof (intro allI impI)
  fix d rules d' rules'
  assume r: "run (d, rules) = Inr (d', rules')"
  then obtain d1 rules1 where r1: "run1 (d, rules) = Inr (d1, rules1)"
    and r2: "run2 (d1, rules1) = Inr (d', rules')"
    by (auto simp: run split: sum.splits)
  let ?n1 = "length ys1" and ?n2 = "length ys2"
  from 1 r1 obtain out1 where F1: "F d1 = foldl (set_last val) (F d) ys1"
    and o1: "rules1 = rules @ out1" "length out1 = k * ?n1"
      "\<forall>j<k * ?n1. F (out1 ! j) = foldl (set_last val) (F d) (take (Suc (j div k)) ys1)"
    unfolding tracks_def by blast
  from 2 r2 obtain out2 where F2: "F d' = foldl (set_last val) (F d1) ys2"
    and o2: "rules' = rules1 @ out2" "length out2 = k * ?n2"
      "\<forall>j<k * ?n2. F (out2 ! j) = foldl (set_last val) (F d1) (take (Suc (j div k)) ys2)"
    unfolding tracks_def by blast
  have "F ((out1 @ out2) ! j) = foldl (set_last val) (F d) (take (Suc (j div k)) (ys1 @ ys2))"
    if j: "j < k * length (ys1 @ ys2)" for j
  proof (cases "j < k * ?n1")
    case True
    then have "j div k < ?n1"
      by (simp add: less_mult_imp_div_less mult.commute)
    then have tk: "take (Suc (j div k)) (ys1 @ ys2) = take (Suc (j div k)) ys1"
      by simp
    have "(out1 @ out2) ! j = out1 ! j"
      using True o1(2) by (simp add: nth_append)
    moreover have "F (out1 ! j) = foldl (set_last val) (F d) (take (Suc (j div k)) ys1)"
      using True o1(3) by blast
    ultimately show ?thesis
      unfolding tk by simp
  next
    case False
    have k: "0 < k" using j by (cases k) simp_all
    define j' where "j' = j - k * ?n1"
    have jeq: "j = ?n1 * k + j'" and j': "j' < k * ?n2"
      using False j by (simp_all add: j'_def mult.commute algebra_simps)
    have "j div k = ?n1 + j' div k"
      unfolding jeq using k by simp
    then have "take (Suc (j div k)) (ys1 @ ys2) = ys1 @ take (Suc (j' div k)) ys2"
      by simp
    moreover have "(out1 @ out2) ! j = out2 ! j'"
      using False o1(2) by (simp add: nth_append j'_def)
    moreover have "F (out2 ! j') = foldl (set_last val) (F d1) (take (Suc (j' div k)) ys2)"
      using j' o2(3) by blast
    ultimately show ?thesis
      using F1 by simp
  qed
  then show "F d' = foldl (set_last val) (F d) (ys1 @ ys2) \<and>
        (\<exists>out. rules' = rules @ out \<and> length out = k * length (ys1 @ ys2) \<and>
           (\<forall>j<k * length (ys1 @ ys2).
              F (out ! j) = foldl (set_last val) (F d) (take (Suc (j div k)) (ys1 @ ys2))))"
    using F1 F2 o1(1,2) o2(1,2)
    by (intro conjI exI [of _ "out1 @ out2"]) (simp_all add: algebra_simps)
qed

lemma tracks_for_each:
  assumes "\<And>x. x \<in> set xs \<Longrightarrow> tracks F val k (Y x) (body x)"
  shows "tracks F val k (concat (map Y xs)) (for_each body xs)"
  using assms
proof (induction xs)
  case Nil
  show ?case by (simp add: tracks_def)
next
  case (Cons x xs)
  have "tracks F val k (Y x @ concat (map Y xs)) (for_each body (x # xs))"
    by (rule tracks_seq [where ?run1.0 = "body x" and ?run2.0 = "for_each body xs"])
      (use Cons in simp_all)
  then show ?case by (simp only: list.map concat.simps)
qed

lemma tracks_level:
  assumes "tracks F val k ys run" and "\<And>d. F (f d) = F d"
  shows "tracks F val k ys (\<lambda>s. run (f (fst s), snd s))"
  unfolding tracks_def
proof (intro allI impI)
  fix d rules d' rules'
  assume "run (f (fst (d, rules)), snd (d, rules)) = Inr (d', rules')"
  then have "run (f d, rules) = Inr (d', rules')" by simp
  with assms(1) have "F d' = foldl (set_last val) (F (f d)) ys \<and>
        (\<exists>out. rules' = rules @ out \<and> length out = k * length ys \<and>
           (\<forall>j<k * length ys. F (out ! j) = foldl (set_last val) (F (f d)) (take (Suc (j div k)) ys)))"
    unfolding tracks_def by blast
  then show "F d' = foldl (set_last val) (F d) ys \<and>
        (\<exists>out. rules' = rules @ out \<and> length out = k * length ys \<and>
           (\<forall>j<k * length ys. F (out ! j) = foldl (set_last val) (F d) (take (Suc (j div k)) ys)))"
    unfolding assms(2) .
qed

lemma tracks_base:
  assumes inner: "\<And>v. emits (\<lambda>d. F d = v) k (\<lambda>_ r. F r = v) inner"
    and f: "\<And>d. F (f d) = set_last val (F d) x"
  shows "tracks F val k [x] (\<lambda>s. inner (f (fst s), snd s))"
  unfolding tracks_def
proof (intro allI impI)
  fix d rules d' rules'
  assume "inner (f (fst (d, rules)), snd (d, rules)) = Inr (d', rules')"
  then have r: "inner (f d, rules) = Inr (d', rules')" by simp
  from inner [of "F (f d)"] r obtain out where "F d' = F (f d)" "rules' = rules @ out"
    "length out = k" "\<forall>j<k. F (out ! j) = F (f d)"
    unfolding emits_def by blast
  then show "F d' = foldl (set_last val) (F d) [x] \<and>
        (\<exists>out. rules' = rules @ out \<and> length out = k * length [x] \<and>
           (\<forall>j<k * length [x]. F (out ! j) = foldl (set_last val) (F d) (take (Suc (j div k)) [x])))"
    by (intro conjI exI [of _ out]) (simp_all add: f)
qed

lemma tracks_all:
  assumes "\<And>x. x \<in> set xs \<Longrightarrow> tracks F val k ys (body x)"
  shows "tracks F val k (concat (replicate (length xs) ys)) (for_each body xs)"
  using tracks_for_each [of xs F val k "\<lambda>_. ys" body] assms
  by (simp add: map_replicate_const)

lemma concat_replicate_mult:
  "concat (replicate m (concat (replicate n ys))) = concat (replicate (m * n) ys)"
  by (induction m) (simp_all add: replicate_add)


lemma tracks_own:
  assumes body: "\<And>x. body x = (\<lambda>s. inner (f x (fst s), snd s))"
    and inner: "\<And>v. emits (\<lambda>d. F d = v) k (\<lambda>_ r. F r = v) inner"
    and f: "\<And>x d. F (f x d) = set_last val (F d) x"
  shows "tracks F val k xs (for_each body xs)"
proof -
  have "tracks F val k (concat (map (\<lambda>x. [x]) xs)) (for_each body xs)"
  proof (rule tracks_for_each)
    fix x
    show "tracks F val k [x] (body x)"
      unfolding body by (rule tracks_base) (rule inner, rule f)
  qed
  then show ?thesis by simp
qed

lemma tracks_outer:
  assumes body: "\<And>x. body x = (\<lambda>s. inner (f x (fst s), snd s))"
    and inner: "tracks F val k ys inner"
    and f: "\<And>x d. F (f x d) = F d"
  shows "tracks F val k (concat (replicate (length xs) ys)) (for_each body xs)"
proof (rule tracks_all)
  fix x
  show "tracks F val k ys (body x)"
    unfolding body by (rule tracks_level [OF inner]) (rule f)
qed

subsection \<open>Loops that leave a field alone\<close>

lemma inv_protos:
  assumes "\<And>n d. I d \<Longrightarrow> I (SetProtocol fam n d)"
  shows "emits I (length protos) (\<lambda>_. I) (for_each (proto_body pm fam) protos)"
  by (rule emits_weaken [OF nest_protos [of I fam "\<lambda>_ _. True"]]) (simp_all add: assms)

lemma inv_dports:
  assumes "\<And>n d. I d \<Longrightarrow> I (SetProtocol fam n d)"
    and "\<And>x d. I d \<Longrightarrow> I (dport_set x d)"
  shows "emits I (length protos * length dports) (\<lambda>_. I) (for_each (dport_body pm fam protos) dports)"
proof -
  have "emits I (length protos * length dports) (\<lambda>j. (\<lambda>_. I) (j mod length protos))
          (for_each (dport_body pm fam protos) dports)"
    by (rule emits_for_each_mod, unfold dport_body_eq, rule emits_level [OF inv_protos [of I]])
      (simp_all add: assms)
  then show ?thesis .
qed

lemma inv_sports:
  assumes "\<And>n d. I d \<Longrightarrow> I (SetProtocol fam n d)"
    and "\<And>x d. I d \<Longrightarrow> I (dport_set x d)"
    and "\<And>x d. I d \<Longrightarrow> I (sport_set x d)"
  shows "emits I (length protos * length dports * length sports) (\<lambda>_. I)
           (for_each (sport_body pm fam dports protos) sports)"
proof -
  have "emits I (length protos * length dports * length sports)
          (\<lambda>j. (\<lambda>_. I) (j mod (length protos * length dports)))
          (for_each (sport_body pm fam dports protos) sports)"
    by (rule emits_for_each_mod, unfold sport_body_eq, rule emits_level [OF inv_dports [of I]])
      (simp_all add: assms)
  then show ?thesis .
qed

lemma inv_daddrs:
  assumes "\<And>n d. I d \<Longrightarrow> I (SetProtocol fam n d)"
    and "\<And>x d. I d \<Longrightarrow> I (dport_set x d)"
    and "\<And>x d. I d \<Longrightarrow> I (sport_set x d)"
    and "\<And>x d. I d \<Longrightarrow> I (daddr_set fam x d)"
  shows "emits I (length protos * length dports * length sports * length daddrs) (\<lambda>_. I)
           (for_each (daddr_body pm fam sports dports protos) daddrs)"
proof -
  have "emits I (length protos * length dports * length sports * length daddrs)
          (\<lambda>j. (\<lambda>_. I) (j mod (length protos * length dports * length sports)))
          (for_each (daddr_body pm fam sports dports protos) daddrs)"
    by (rule emits_for_each_mod, unfold daddr_body_eq, rule emits_level [OF inv_sports [of I]])
      (simp_all add: assms)
  then show ?thesis .
qed

lemma inv_saddrs:
  assumes "\<And>n d. I d \<Longrightarrow> I (SetProtocol fam n d)"
    and "\<And>x d. I d \<Longrightarrow> I (dport_set x d)"
    and "\<And>x d. I d \<Longrightarrow> I (sport_set x d)"
    and "\<And>x d. I d \<Longrightarrow> I (daddr_set fam x d)"
    and "\<And>x d. I d \<Longrightarrow> I (saddr_set fam x d)"
  shows "emits I (length protos * length dports * length sports * length daddrs * length saddrs)
           (\<lambda>_. I) (for_each (saddr_body pm fam daddrs sports dports protos) saddrs)"
proof -
  have "emits I (length protos * length dports * length sports * length daddrs * length saddrs)
          (\<lambda>j. (\<lambda>_. I) (j mod (length protos * length dports * length sports * length daddrs)))
          (for_each (saddr_body pm fam daddrs sports dports protos) saddrs)"
    by (rule emits_for_each_mod, unfold saddr_body_eq, rule emits_level [OF inv_daddrs [of I]])
      (simp_all add: assms)
  then show ?thesis .
qed

subsection \<open>The value of each field in each rule\<close>

lemma lookup3_loop_sets:
  "lookup3 (dport_set x d) a b c =
     (if a = ''transport'' \<and> b = ''config'' \<and> c = ''destination-port''
      then set_last port_field (lookup3 d a b c) x else lookup3 d a b c)"
  "lookup3 (sport_set x d) a b c =
     (if a = ''transport'' \<and> b = ''config'' \<and> c = ''source-port''
      then set_last port_field (lookup3 d a b c) x else lookup3 d a b c)"
  "lookup3 (daddr_set fam y d) a b c =
     (if a = fam \<and> b = ''config'' \<and> c = ''destination-address''
      then set_last addr_field (lookup3 d a b c) y else lookup3 d a b c)"
  "lookup3 (saddr_set fam y d) a b c =
     (if a = fam \<and> b = ''config'' \<and> c = ''source-address''
      then set_last addr_field (lookup3 d a b c) y else lookup3 d a b c)"
  by (simp_all add: dport_set_def sport_set_def daddr_set_def saddr_set_def lookup3_setters
      set_last_def port_field_def addr_field_def split: addr_item.splits)

lemma tracks_proto_body:
  "tracks (\<lambda>d. lookup3 d fam ''config'' ''protocol'') (proto_field pm) 1 [p] (proto_body pm fam p)"
  unfolding tracks_def
  by (cases p)
    (auto simp: proto_number_def proto_field_def set_last_def Let_def lookup3_SetProtocol
      split: if_splits option.splits)

lemma track_protocol_protos:
  "tracks (\<lambda>d. lookup3 d fam ''config'' ''protocol'') (proto_field pm) 1 protos
     (for_each (proto_body pm fam) protos)"
proof -
  have "tracks (\<lambda>d. lookup3 d fam ''config'' ''protocol'') (proto_field pm) 1
          (concat (map (\<lambda>p. [p]) protos)) (for_each (proto_body pm fam) protos)"
    by (rule tracks_for_each) (rule tracks_proto_body)
  then show ?thesis by simp
qed

lemma track_protocol:
  "tracks (\<lambda>d. lookup3 d fam ''config'' ''protocol'') (proto_field pm) 1
     (concat (replicate (length saddrs * length daddrs * length sports * length dports) protos))
     (for_each (saddr_body pm fam daddrs sports dports protos) saddrs)"
proof -
  let ?F = "\<lambda>d. lookup3 d fam ''config'' ''protocol''"
  have "tracks ?F (proto_field pm) 1 (concat (replicate (length dports) protos))
          (for_each (dport_body pm fam protos) dports)"
    by (rule tracks_outer [OF dport_body_eq track_protocol_protos]) (simp add: lookup3_loop_sets)
  then have "tracks ?F (proto_field pm) 1
          (concat (replicate (length sports) (concat (replicate (length dports) protos))))
          (for_each (sport_body pm fam dports protos) sports)"
    by (rule tracks_outer [OF sport_body_eq]) (simp add: lookup3_loop_sets)
  then have "tracks ?F (proto_field pm) 1
          (concat (replicate (length daddrs)
             (concat (replicate (length sports) (concat (replicate (length dports) protos))))))
          (for_each (daddr_body pm fam sports dports protos) daddrs)"
    by (rule tracks_outer [OF daddr_body_eq]) (simp add: lookup3_loop_sets)
  then have "tracks ?F (proto_field pm) 1
          (concat (replicate (length saddrs) (concat (replicate (length daddrs)
             (concat (replicate (length sports) (concat (replicate (length dports) protos))))))))
          (for_each (saddr_body pm fam daddrs sports dports protos) saddrs)"
    by (rule tracks_outer [OF saddr_body_eq]) (simp add: lookup3_loop_sets)
  then show ?thesis by (simp add: concat_replicate_mult mult.assoc)
qed

lemma track_dport:
  "tracks (\<lambda>d. lookup3 d ''transport'' ''config'' ''destination-port'') port_field (length protos)
     (concat (replicate (length saddrs * length daddrs * length sports) dports))
     (for_each (saddr_body pm fam daddrs sports dports protos) saddrs)"
proof -
  let ?F = "\<lambda>d. lookup3 d ''transport'' ''config'' ''destination-port''"
  have "tracks ?F port_field (length protos) dports (for_each (dport_body pm fam protos) dports)"
    by (rule tracks_own [OF dport_body_eq inv_protos]) (simp_all add: lookup3_loop_sets lookup3_setters)
  then have "tracks ?F port_field (length protos) (concat (replicate (length sports) dports))
          (for_each (sport_body pm fam dports protos) sports)"
    by (rule tracks_outer [OF sport_body_eq]) (simp add: lookup3_loop_sets)
  then have "tracks ?F port_field (length protos)
          (concat (replicate (length daddrs) (concat (replicate (length sports) dports))))
          (for_each (daddr_body pm fam sports dports protos) daddrs)"
    by (rule tracks_outer [OF daddr_body_eq]) (simp add: lookup3_loop_sets)
  then have "tracks ?F port_field (length protos)
          (concat (replicate (length saddrs) (concat (replicate (length daddrs)
             (concat (replicate (length sports) dports))))))
          (for_each (saddr_body pm fam daddrs sports dports protos) saddrs)"
    by (rule tracks_outer [OF saddr_body_eq]) (simp add: lookup3_loop_sets)
  then show ?thesis by (simp add: concat_replicate_mult mult.assoc)
qed

lemma track_sport:
  "tracks (\<lambda>d. lookup3 d ''transport'' ''config'' ''source-port'') port_field
     (length protos * length dports)
     (concat (replicate (length saddrs * length daddrs) sports))
     (for_each (saddr_body pm fam daddrs sports dports protos) saddrs)"
proof -
  let ?F = "\<lambda>d. lookup3 d ''transport'' ''config'' ''source-port''"
  have "tracks ?F port_field (length protos * length dports) sports
          (for_each (sport_body pm fam dports protos) sports)"
    by (rule tracks_own [OF sport_body_eq inv_dports]) (simp_all add: lookup3_loop_sets lookup3_setters)
  then have "tracks ?F port_field (length protos * length dports)
          (concat (replicate (length daddrs) sports))
          (for_each (daddr_body pm fam sports dports protos) daddrs)"
    by (rule tracks_outer [OF daddr_body_eq]) (simp add: lookup3_loop_sets)
  then have "tracks ?F port_field (length protos * length dports)
          (concat (replicate (length saddrs) (concat (replicate (length daddrs) sports))))
          (for_each (saddr_body pm fam daddrs sports dports protos) saddrs)"
    by (rule tracks_outer [OF saddr_body_eq]) (simp add: lookup3_loop_sets)
  then show ?thesis by (simp add: concat_replicate_mult)
qed

lemma track_daddr:
  "tracks (\<lambda>d. lookup3 d fam ''config'' ''destination-address'') addr_field
     (length protos * length dports * length sports)
     (concat (replicate (length saddrs) daddrs))
     (for_each (saddr_body pm fam daddrs sports dports protos) saddrs)"
proof -
  let ?F = "\<lambda>d. lookup3 d fam ''config'' ''destination-address''"
  have "tracks ?F addr_field (length protos * length dports * length sports) daddrs
          (for_each (daddr_body pm fam sports dports protos) daddrs)"
    by (rule tracks_own [OF daddr_body_eq inv_sports]) (simp_all add: lookup3_loop_sets lookup3_setters)
  then show ?thesis
    by (rule tracks_outer [OF saddr_body_eq]) (simp add: lookup3_loop_sets)
qed

lemma track_saddr:
  "tracks (\<lambda>d. lookup3 d fam ''config'' ''source-address'') addr_field
     (length protos * length dports * length sports * length daddrs) saddrs
     (for_each (saddr_body pm fam daddrs sports dports protos) saddrs)"
  by (rule tracks_own [OF saddr_body_eq inv_daddrs]) (simp_all add: lookup3_loop_sets lookup3_setters)


lemma tracks_start:
  assumes "tracks F val k ys run" and "run (d1, []) = Inr (d, rules)" and "F d1 = None"
    and "j < length rules"
  shows "F (rules ! j) = last_set val (take (Suc (j div k)) ys)"
proof -
  from assms(1,2) obtain out where "rules = [] @ out" "length out = k * length ys"
    "\<forall>j<k * length ys. F (out ! j) = foldl (set_last val) (F d1) (take (Suc (j div k)) ys)"
    unfolding tracks_def by blast
  with assms(3,4) show ?thesis
    by (simp add: last_set_def)
qed

lemma initial_fields:
  assumes "SetAction t [] = Inr d0" and "SetOptions t d0 = Inr d1"
  shows "lookup3 d1 ''transport'' ''config'' ''source-port'' = None"
    and "lookup3 d1 ''transport'' ''config'' ''destination-port'' = None"
    and "fam = ''ipv4'' \<or> fam = ''ipv6'' \<Longrightarrow> lookup3 d1 fam b c = None"
proof -
  have *: "lookup3 d1 a b c = None"
    if "\<not> (a = ''actions'' \<and> b = ''config'' \<and> c = ''forwarding-action'' \<or>
         a = ''transport'' \<and> b = ''config'' \<and> (c = ''detail-mode'' \<or> c = ''builtin-detail''))"
    for a b c
    using initial_lookup3 [OF assms, of a b c] that by (cases "lookup3 d1 a b c") auto
  show "lookup3 d1 ''transport'' ''config'' ''source-port'' = None"
    by (rule *) simp
  show "lookup3 d1 ''transport'' ''config'' ''destination-port'' = None"
    by (rule *) simp
  show "lookup3 d1 fam b c = None" if "fam = ''ipv4'' \<or> fam = ''ipv6''"
    by (rule *) (use that in auto)
qed

lemma ConvertToDict_fields:
  assumes conv: "ConvertToDict pm t iv fo = Inr rules"
    and af: "map_of AF_MAP iv = Some af" and fam: "map_of AF_RENAME af = Some fam"
    and j: "j < length rules"
  shows "lookup3 (rules ! j) fam ''config'' ''source-address'' =
           last_set addr_field
             (take (Suc (j div (dim (protocol t) * dim (destination_port t) * dim (source_port t) *
                                dim (GetAddressOfVersion (flattened_daddr t) af))))
                (addrs_or_any (GetAddressOfVersion (flattened_saddr t) af)))"
    and "lookup3 (rules ! j) fam ''config'' ''destination-address'' =
           last_set addr_field
             (take (Suc (j div (dim (protocol t) * dim (destination_port t) * dim (source_port t))))
                (concat (replicate (dim (GetAddressOfVersion (flattened_saddr t) af))
                   (addrs_or_any (GetAddressOfVersion (flattened_daddr t) af)))))"
    and "lookup3 (rules ! j) ''transport'' ''config'' ''source-port'' =
           last_set port_field
             (take (Suc (j div (dim (protocol t) * dim (destination_port t))))
                (concat (replicate (dim (GetAddressOfVersion (flattened_saddr t) af) *
                                    dim (GetAddressOfVersion (flattened_daddr t) af))
                   (sports_of t))))"
    and "lookup3 (rules ! j) ''transport'' ''config'' ''destination-port'' =
           last_set port_field
             (take (Suc (j div dim (protocol t)))
                (concat (replicate (dim (GetAddressOfVersion (flattened_saddr t) af) *
                                    dim (GetAddressOfVersion (flattened_daddr t) af) *
                                    dim (source_port t))
                   (dports_of t))))"
    and "lookup3 (rules ! j) fam ''config'' ''protocol'' =
           last_set (proto_field pm)
             (take (Suc j)
                (concat (replicate (dim (GetAddressOfVersion (flattened_saddr t) af) *
                                    dim (GetAddressOfVersion (flattened_daddr t) af) *
                                    dim (source_port t) * dim (destination_port t))
                   (protos_of t))))"
proof -
  let ?daddrs = "addrs_or_any (GetAddressOfVersion (flattened_daddr t) af)"
  let ?saddrs = "addrs_or_any (GetAddressOfVersion (flattened_saddr t) af)"
  let ?run = "for_each (saddr_body pm fam ?daddrs (sports_of t) (dports_of t) (protos_of t)) ?saddrs"
  from conv af fam obtain d0 d1 d where d0: "SetAction t [] = Inr d0"
    and d1: "SetOptions t d0 = Inr d1" and run: "?run (d1, []) = Inr (d, rules)"
    by (auto elim!: ConvertToDict_InrD)
  from fam have f: "fam = ''ipv4'' \<or> fam = ''ipv6''"
    by (auto simp: AF_RENAME_cases)
  note init = initial_fields [OF d0 d1]
  show "lookup3 (rules ! j) fam ''config'' ''source-address'' =
           last_set addr_field
             (take (Suc (j div (dim (protocol t) * dim (destination_port t) * dim (source_port t) *
                                dim (GetAddressOfVersion (flattened_daddr t) af))))
                (addrs_or_any (GetAddressOfVersion (flattened_saddr t) af)))"
    using tracks_start [OF track_saddr run init(3) [OF f] j] by simp
  show "lookup3 (rules ! j) fam ''config'' ''destination-address'' =
           last_set addr_field
             (take (Suc (j div (dim (protocol t) * dim (destination_port t) * dim (source_port t))))
                (concat (replicate (dim (GetAddressOfVersion (flattened_saddr t) af))
                   (addrs_or_any (GetAddressOfVersion (flattened_daddr t) af)))))"
    using tracks_start [OF track_daddr run init(3) [OF f] j] by simp
  show "lookup3 (rules ! j) ''transport'' ''config'' ''source-port'' =
           last_set port_field
             (take (Suc (j div (dim (protocol t) * dim (destination_port t))))
                (concat (replicate (dim (GetAddressOfVersion (flattened_saddr t) af) *
                                    dim (GetAddressOfVersion (flattened_daddr t) af))
                   (sports_of t))))"
    using tracks_start [OF track_sport run init(1) j] by simp
  show "lookup3 (rules ! j) ''transport'' ''config'' ''destination-port'' =
           last_set port_field
             (take (Suc (j div dim (protocol t)))
                (concat (replicate (dim (GetAddressOfVersion (flattened_saddr t) af) *
                                    dim (GetAddressOfVersion (flattened_daddr t) af) *
                                    dim (source_port t))
                   (dports_of t))))"
    using tracks_start [OF track_dport run init(2) j] by simp
  show "lookup3 (rules ! j) fam ''config'' ''protocol'' =
           last_set (proto_field pm)
             (take (Suc j)
                (concat (replicate (dim (GetAddressOfVersion (flattened_saddr t) af) *
                                    dim (GetAddressOfVersion (flattened_daddr t) af) *
                                    dim (source_port t) * dim (destination_port t))
                   (protos_of t))))"
    using tracks_start [OF track_protocol run init(3) [OF f] j] by simp
qed

subsection \<open>When a field is present\<close>

lemma foldl_set_last_None:
  "foldl (set_last val) v xs = None \<longleftrightarrow> v = None \<and> (\<forall>x\<in>set xs. val x = None)"
  by (induction xs arbitrary: v) (auto simp: set_last_def split: option.splits)

lemma last_set_None: "last_set val xs = None \<longleftrightarrow> (\<forall>x\<in>set xs. val x = None)"
  by (simp add: last_set_def foldl_set_last_None)

lemma foldl_set_last_mem:
  "foldl (set_last val) v xs = v \<or> foldl (set_last val) v xs \<in> val ` set xs"
proof (induction xs arbitrary: v)
  case Nil
  show ?case by simp
next
  case (Cons x xs)
  from Cons.IH [of "set_last val v x"] show ?case
    by (auto simp: set_last_def split: option.splits)
qed

lemma set_concat_replicate: "set (concat (replicate N xs)) \<subseteq> set xs"
  by (induction N) auto

lemma hd_take_concat_replicate:
  assumes "xs \<noteq> []" and "0 < N"
  shows "hd xs \<in> set (take (Suc n) (concat (replicate N xs)))"
proof -
  from assms obtain x xs' M where "xs = x # xs'" "N = Suc M"
    by (cases xs; cases N) auto
  then show ?thesis by simp
qed

lemma take_concat_replicate_ex:
  assumes "0 < N"
  shows "(\<exists>x\<in>set (take (Suc j) (concat (replicate N xs))). P x) \<longleftrightarrow> (\<exists>x\<in>set (take (Suc j) xs). P x)"
proof -
  from assms obtain M where N: "N = Suc M" by (cases N) auto
  have eq: "take (Suc j) (concat (replicate N xs)) =
      take (Suc j) xs @ take (Suc j - length xs) (concat (replicate M xs))"
    by (simp add: N)
  show ?thesis
  proof (cases "Suc j \<le> length xs")
    case True
    then show ?thesis unfolding eq by simp
  next
    case False
    then have "take (Suc j) xs = xs" by simp
    moreover have "set (take (Suc j - length xs) (concat (replicate M xs))) \<subseteq> set xs"
      using set_take_subset set_concat_replicate by fast
    ultimately show ?thesis unfolding eq by auto
  qed
qed

lemma addr_present:
  assumes "0 < N"
  shows "last_set addr_field (take (Suc n) (concat (replicate N (addrs_or_any L)))) \<noteq> None
           \<longleftrightarrow> L \<noteq> []"
proof (cases "L = []")
  case True
  have "set (take (Suc n) (concat (replicate N [Any]))) \<subseteq> {Any}"
    using set_take_subset set_concat_replicate by fastforce
  then show ?thesis
    using True by (auto simp: last_set_None addrs_or_any_def addr_field_def)
next
  case False
  then have "map Addr L \<noteq> []" by simp
  from hd_take_concat_replicate [OF this assms, of n]
  have "Addr (hd L) \<in> set (take (Suc n) (concat (replicate N (map Addr L))))"
    using False by (simp add: hd_map)
  moreover have "addr_field (Addr (hd L)) \<noteq> None"
    by (simp add: addr_field_def)
  ultimately show ?thesis
    using False unfolding last_set_None addrs_or_any_def by auto
qed

lemma addr_leaf:
  "last_set addr_field (take n (concat (replicate N (addrs_or_any L)))) \<in> set (address_leaves L)"
proof -
  let ?xs = "take n (concat (replicate N (addrs_or_any L)))"
  have sub: "set ?xs \<subseteq> set (addrs_or_any L)"
    using set_take_subset set_concat_replicate by fast
  have "addr_field x \<in> set (address_leaves L)" if "x \<in> set (addrs_or_any L)" for x
    using that by (auto simp: addrs_or_any_def address_leaves_def addr_field_def split: if_splits)
  with sub have "addr_field ` set ?xs \<subseteq> set (address_leaves L)" by auto
  moreover have "None \<in> set (address_leaves L)" by (simp add: address_leaves_def)
  ultimately show ?thesis
    using foldl_set_last_mem [of addr_field None ?xs] unfolding last_set_def by auto
qed

lemma ConvertToDict_family_set:
  assumes conv: "ConvertToDict pm t iv fo = Inr rules"
    and af: "map_of AF_MAP iv = Some af" and fam: "map_of AF_RENAME af = Some fam"
    and j: "j < length rules"
  shows "lookup3 (rules ! j) fam ''config'' ''source-address'' \<noteq> None \<or>
         lookup3 (rules ! j) fam ''config'' ''destination-address'' \<noteq> None \<or>
         lookup3 (rules ! j) fam ''config'' ''protocol'' \<noteq> None \<longleftrightarrow> family_set pm t af j"
proof -
  have sa: "lookup3 (rules ! j) fam ''config'' ''source-address'' \<noteq> None \<longleftrightarrow>
      GetAddressOfVersion (flattened_saddr t) af \<noteq> []"
    unfolding ConvertToDict_fields(1) [OF conv af fam j]
    using addr_present [of 1] by simp
  have da: "lookup3 (rules ! j) fam ''config'' ''destination-address'' \<noteq> None \<longleftrightarrow>
      GetAddressOfVersion (flattened_daddr t) af \<noteq> []"
    unfolding ConvertToDict_fields(2) [OF conv af fam j]
    by (rule addr_present) simp
  have "lookup3 (rules ! j) fam ''config'' ''protocol'' \<noteq> None \<longleftrightarrow>
      (\<exists>p\<in>set (take (Suc j) (protos_of t)). proto_field pm p \<noteq> None)"
    unfolding ConvertToDict_fields(5) [OF conv af fam j] last_set_None
    using take_concat_replicate_ex [where P = "\<lambda>p. proto_field pm p \<noteq> None"] by simp
  then have pr: "lookup3 (rules ! j) fam ''config'' ''protocol'' \<noteq> None \<longleftrightarrow>
      \<not> list_all (\<lambda>p. proto_number pm p = None) (take (Suc j) (protos_of t))"
    by (simp add: proto_field_def list_all_iff)
  show ?thesis
    unfolding sa da pr family_set_def by blast
qed


subsection \<open>The translator\<close>

lemma numbered_append:
  "numbered c (xs @ ys) = numbered c xs @ numbered (c + int (length xs)) ys"
  by (induction xs arbitrary: c) (simp_all add: add.assoc)

lemma length_numbered [simp]: "length (numbered c rs) = length rs"
  by (induction rs arbitrary: c) simp_all

lemma nth_numbered:
  "i < length rs \<Longrightarrow> numbered c rs ! i = set_sequence_id ((c + int i + 1) * 5) (rs ! i)"
proof (induction rs arbitrary: c i)
  case Nil
  then show ?case by simp
next
  case (Cons r rs)
  show ?case
  proof (cases i)
    case 0
    then show ?thesis by simp
  next
    case (Suc k)
    with Cons.prems have "k < length rs" by simp
    from Cons.IH [OF this, of "c + 1"] Suc show ?thesis
      by (simp add: add.assoc add.commute)
  qed
qed

lemma fold_rule_body:
  "fold rule_body rules (c, es) = (c + int (length rules), es @ numbered c rules)"
  by (induction rules arbitrary: c es) (simp_all add: add.assoc)

lemma for_each_numbered:
  assumes "\<And>x c es s'. x \<in> set xs \<Longrightarrow> body x (c, es) = Inr s' \<Longrightarrow>
             s' = (c + int (length (R x)), es @ numbered c (R x))"
    and "for_each body xs (c, es) = Inr s'"
  shows "s' = (c + int (length (concat (map R xs))), es @ numbered c (concat (map R xs)))"
  using assms
proof (induction xs arbitrary: c es)
  case Nil
  then show ?case by simp
next
  case (Cons x xs)
  from Cons.prems(2) obtain s1 where b: "body x (c, es) = Inr s1"
    and r: "for_each body xs s1 = Inr s'"
    by (auto split: sum.splits)
  from Cons.prems(1) [OF _ b] have s1: "s1 = (c + int (length (R x)), es @ numbered c (R x))"
    by simp
  have "s' = (c + int (length (R x)) + int (length (concat (map R xs))),
              (es @ numbered c (R x)) @ numbered (c + int (length (R x))) (concat (map R xs)))"
    by (rule Cons.IH) (use Cons.prems(1) r s1 in auto)
  then show ?case
    by (simp add: numbered_append add.assoc)
qed

lemma for_each_all_Inr:
  assumes "for_each body xs s = Inr s'" and "x \<in> set xs"
  shows "\<exists>s1 s2. body x s1 = Inr s2"
  using assms
  by (induction xs arbitrary: s) (auto split: sum.splits)

lemma ProtocolNameToNumber_again:
  assumes "ProtocolNameToNumber ps al pm = Inr ps'" and "list_all (proto_supported pm) ps"
  shows "list_all (proto_supported pm) ps' \<and> ProtocolNameToNumber ps' al pm = Inr ps'"
  using assms
proof (induction ps arbitrary: ps')
  case Nil
  then show ?case by simp
next
  case (Cons p ps)
  let ?one = "\<lambda>p. case p of
              ProtoName m \<Rightarrow>
                if m \<in> set al then
                  (case map_of pm m of None \<Rightarrow> Inl KeyError | Some n \<Rightarrow> Inr (ProtoNum n))
                else Inr p
            | ProtoNum n \<Rightarrow> (Inr p :: error + proto)"
  from Cons.prems(1) obtain p' qs where ps': "ps' = p' # qs" and p': "?one p = Inr p'"
    and qs: "ProtocolNameToNumber ps al pm = Inr qs"
    by (auto split: sum.splits)
  from Cons.prems(2) have sp: "proto_supported pm p" and sps: "list_all (proto_supported pm) ps"
    by simp_all
  have 1: "proto_supported pm p' \<and> ?one p' = Inr p'"
  proof (cases p)
    case (ProtoNum n)
    with p' sp show ?thesis by auto
  next
    case (ProtoName m)
    show ?thesis
    proof (cases "m \<in> set al")
      case False
      with p' ProtoName sp show ?thesis by auto
    next
      case True
      with p' ProtoName obtain n where n: "map_of pm m = Some n" and pn: "p' = ProtoNum n"
        by (auto split: option.splits)
      from n have "(m, n) \<in> set pm" by (rule map_of_SomeD)
      then have "fmt_d n \<in> set (map (\<lambda>kv. fmt_d (snd kv)) pm)" by force
      with pn show ?thesis by (simp add: proto_supported_def str_proto_def)
    qed
  qed
  from Cons.IH [OF qs sps] 1 show ?case
    by (simp add: ps')
qed

lemma Term_init_again:
  assumes "Term_init pm al t = Inr t'"
  shows "Term_init pm al t' = Inr t'"
proof -
  from assms obtain ps' where sup: "list_all (proto_supported pm) (protocol t)"
    and ps': "ProtocolNameToNumber (protocol t) al pm = Inr ps'" and t': "t' = t\<lparr>protocol := ps'\<rparr>"
    by (auto simp: Term_init_def split: if_splits sum.splits)
  from ProtocolNameToNumber_again [OF ps' sup] show ?thesis
    by (simp add: Term_init_def t')
qed

lemma Term_convert_again:
  assumes "Term_init pm al t = Inr t'"
  shows "Term_convert pm al t' = Term_convert pm al t"
  using assms Term_init_again [OF assms]
  by (intro ext) (simp add: Term_convert_def)

lemma af_loop:
  assumes "for_each (af_body pm al fo) fams (t, c, es) = Inr ts"
  shows "snd ts =
           (c + int (length (concat (map (\<lambda>fam. rules_of (Term_convert pm al t fam fo)) fams))),
            es @ numbered c (concat (map (\<lambda>fam. rules_of (Term_convert pm al t fam fo)) fams))) \<and>
         (\<forall>fam\<in>set fams. \<exists>rules. Term_convert pm al t fam fo = Inr rules)"
  using assms
proof (induction fams arbitrary: t c es)
  case Nil
  then show ?case by auto
next
  case (Cons fam fams)
  from Cons.prems obtain s1 where b: "af_body pm al fo fam (t, c, es) = Inr s1"
    and rest1: "for_each (af_body pm al fo) fams s1 = Inr ts"
    by (auto split: sum.splits)
  from b obtain t1 rules where init: "Term_init pm al t = Inr t1"
    and conv: "ConvertToDict pm t1 fam fo = Inr rules"
    and s1: "s1 = (t1, fold rule_body rules (c, es))"
    by (auto simp: af_body_def split: sum.splits)
  from rest1 s1 have
    rest: "for_each (af_body pm al fo) fams (t1, fold rule_body rules (c, es)) = Inr ts"
    by simp
  have tc: "Term_convert pm al t fam fo = Inr rules"
    by (simp add: Term_convert_def init conv)
  note again = Term_convert_again [OF init]
  from rest have "for_each (af_body pm al fo) fams
      (t1, c + int (length rules), es @ numbered c rules) = Inr ts"
    by (simp add: fold_rule_body)
  from Cons.IH [OF this] tc show ?case
    by (simp add: again rules_of_def numbered_append add.assoc)
qed

lemma term_body_Inr:
  assumes "term_body pm al af fo t (c, es) = Inr s'"
  shows "s' = (c + int (length (term_rules pm al fo af t)), es @ numbered c (term_rules pm al fo af t))"
proof -
  from assms obtain ts where
    "for_each (af_body pm al fo) (term_address_families af) (t, c, es) = Inr ts" and "s' = snd ts"
    by (auto simp: term_body_def split: sum.splits)
  with af_loop [of pm al fo "term_address_families af" t c es ts] show ?thesis
    by (simp add: term_rules_def)
qed

lemma TranslateTerms_Inr:
  assumes "TranslateTerms pm al terms af fname hc fo self = Inr self'"
  shows "\<exists>oc_type. map_of FAMILY_MAP af = Some oc_type \<and>
           self' = \<lparr>total_rule_count =
                      total_rule_count self + int (length (concat (map (term_rules pm al fo af) terms))),
                    acl_sets = acl_sets self @
                      [\<lparr>acl_entries =
                          numbered (total_rule_count self) (concat (map (term_rules pm al fo af) terms)),
                        config = \<lparr>config_name = fname, config_type = oc_type\<rparr>,
                        set_name = fname, set_type = oc_type\<rparr>]\<rparr>"
proof -
  from assms obtain s oc_type where
    run: "for_each (term_body pm al af fo) terms (total_rule_count self, []) = Inr s"
    and oc: "map_of FAMILY_MAP af = Some oc_type"
    and self': "self' = \<lparr>total_rule_count = fst s,
                    acl_sets = acl_sets self @
                      [\<lparr>acl_entries = snd s,
                        config = \<lparr>config_name = fname, config_type = oc_type\<rparr>,
                        set_name = fname, set_type = oc_type\<rparr>]\<rparr>"
    by (auto simp: TranslateTerms_def split: sum.splits option.splits)
  have "s = (total_rule_count self + int (length (concat (map (term_rules pm al fo af) terms))),
             [] @ numbered (total_rule_count self) (concat (map (term_rules pm al fo af) terms)))"
    by (rule for_each_numbered [OF _ run]) (rule term_body_Inr)
  with oc self' show ?thesis by simp
qed

lemma TranslateTerms_converts:
  assumes "TranslateTerms pm al terms af fname hc fo self = Inr self'"
    and "t \<in> set terms" and "term_af \<in> set (term_address_families af)"
  shows "\<exists>rules. Term_convert pm al t term_af fo = Inr rules"
proof -
  from assms(1) obtain s where
    "for_each (term_body pm al af fo) terms (total_rule_count self, []) = Inr s"
    by (auto simp: TranslateTerms_def split: sum.splits)
  from for_each_all_Inr [OF this assms(2)] obtain s1 s2 where
    "term_body pm al af fo t s1 = Inr s2"
    by blast
  then obtain ts where
    "for_each (af_body pm al fo) (term_address_families af) (t, fst s1, snd s1) = Inr ts"
    by (auto simp: term_body_def split: sum.splits)
  from af_loop [OF this] assms(3) show ?thesis by blast
qed

lemma Term_init_no_protocol:
  "protocol t = [] \<Longrightarrow> Term_init pm al t = Inr t"
  by (simp add: Term_init_def)

lemma example_inits:
  "Term_init example_protos example_always mixed_term1 = Inr mixed_term1"
  "Term_init example_protos example_always mixed_term2 = Inr mixed_term2"
  "Term_init example_protos example_always degenerate_term = Inr degenerate_term"
  by (simp_all add: Term_init_no_protocol mixed_term1_def mixed_term2_def degenerate_term_def)

subsection \<open>The translator on the examples\<close>

lemmas translate_defs =
  TranslatePolicy_def filter_body_def select_family_def TranslateTerms_def term_body_def
  term_address_families_def af_body_def set_sequence_id_def FAMILY_MAP_def

lemma mixed_term1_rules:
  "ConvertToDict example_protos mixed_term1 ''inet'' [] =
     Inr [[(''actions'', [(''config'', [(''forwarding-action'', StrV ''ACCEPT'')])]),
           (''ipv4'', [(''config'', [(''source-address'', StrV ''10.0.0.0/8'')])])]]"
  "ConvertToDict example_protos mixed_term1 ''inet6'' [] =
     Inr [[(''actions'', [(''config'', [(''forwarding-action'', StrV ''ACCEPT'')])]),
           (''ipv6'', [(''config'', [(''source-address'', StrV ''2001:db8::/32'')])])]]"
  by (simp_all add: eval_defs mixed_term1_def)

lemma mixed_term2_rules:
  "ConvertToDict example_protos mixed_term2 ''inet'' [] =
     Inr [[(''actions'', [(''config'', [(''forwarding-action'', StrV ''DROP'')])]),
           (''ipv4'', [(''config'', [(''destination-address'', StrV ''172.16.0.0/12'')])])]]"
  "ConvertToDict example_protos mixed_term2 ''inet6'' [] =
     Inr [[(''actions'', [(''config'', [(''forwarding-action'', StrV ''DROP'')])]),
           (''ipv6'', [(''config'', [(''destination-address'', StrV ''2001:db8:1::/48'')])])]]"
  by (simp_all add: eval_defs mixed_term2_def)

lemma degenerate_term_rules:
  "ConvertToDict example_protos degenerate_term ''inet'' [] =
     Inr [[(''actions'', [(''config'', [(''forwarding-action'', StrV ''ACCEPT'')])])]]"
  by (simp add: eval_defs degenerate_term_def)

lemma example_mixed_filter:
  "TranslateTerms example_protos example_always [mixed_term1, mixed_term2] ''mixed'' ''edge'' [] []
     \<lparr>total_rule_count = 0, acl_sets = []\<rparr> =
   Inr \<lparr>total_rule_count = 4,
        acl_sets =
          [\<lparr>acl_entries =
              [[(''actions'', DictField [(''config'', [(''forwarding-action'', StrV ''ACCEPT'')])]),
                (''ipv4'', DictField [(''config'', [(''source-address'', StrV ''10.0.0.0/8'')])]),
                (''sequence-id'', IntField 5)],
               [(''actions'', DictField [(''config'', [(''forwarding-action'', StrV ''ACCEPT'')])]),
                (''ipv6'', DictField [(''config'', [(''source-address'', StrV ''2001:db8::/32'')])]),
                (''sequence-id'', IntField 10)],
               [(''actions'', DictField [(''config'', [(''forwarding-action'', StrV ''DROP'')])]),
                (''ipv4'', DictField [(''config'', [(''destination-address'', StrV ''172.16.0.0/12'')])]),
                (''sequence-id'', IntField 15)],
               [(''actions'', DictField [(''config'', [(''forwarding-action'', StrV ''DROP'')])]),
                (''ipv6'', DictField [(''config'', [(''destination-address'', StrV ''2001:db8:1::/48'')])]),
                (''sequence-id'', IntField 20)]],
            config = \<lparr>config_name = ''edge'', config_type = ''ACL_MIXED''\<rparr>,
            set_name = ''edge'', set_type = ''ACL_MIXED''\<rparr>]\<rparr>"
  by (simp add: translate_defs example_inits mixed_term1_rules mixed_term2_rules)

lemma example_policy_result:
  "TranslatePolicy example_protos example_always [''inet'', ''inet6'', ''mixed''] example_policy =
   Inr \<lparr>total_rule_count = 5,
        acl_sets =
          [\<lparr>acl_entries =
              [[(''actions'', DictField [(''config'', [(''forwarding-action'', StrV ''ACCEPT'')])]),
                (''ipv4'', DictField [(''config'', [(''source-address'', StrV ''10.0.0.0/8'')])]),
                (''sequence-id'', IntField 5)],
               [(''actions'', DictField [(''config'', [(''forwarding-action'', StrV ''ACCEPT'')])]),
                (''ipv6'', DictField [(''config'', [(''source-address'', StrV ''2001:db8::/32'')])]),
                (''sequence-id'', IntField 10)],
               [(''actions'', DictField [(''config'', [(''forwarding-action'', StrV ''DROP'')])]),
                (''ipv4'', DictField [(''config'', [(''destination-address'', StrV ''172.16.0.0/12'')])]),
                (''sequence-id'', IntField 15)],
               [(''actions'', DictField [(''config'', [(''forwarding-action'', StrV ''DROP'')])]),
                (''ipv6'', DictField [(''config'', [(''destination-address'', StrV ''2001:db8:1::/48'')])]),
                (''sequence-id'', IntField 20)]],
            config = \<lparr>config_name = ''edge'', config_type = ''ACL_MIXED''\<rparr>,
            set_name = ''edge'', set_type = ''ACL_MIXED''\<rparr>,
           \<lparr>acl_entries =
              [[(''actions'', DictField [(''config'', [(''forwarding-action'', StrV ''ACCEPT'')])]),
                (''sequence-id'', IntField 25)]],
            config = \<lparr>config_name = ''core'', config_type = ''ACL_IPV4''\<rparr>,
            set_name = ''core'', set_type = ''ACL_IPV4''\<rparr>]\<rparr>"
  by (simp add: translate_defs example_policy_def example_inits mixed_term1_rules
      mixed_term2_rules degenerate_term_rules)

subsection \<open>The counter across filters\<close>

lemma for_each_invariant:
  assumes "\<And>x s s'. x \<in> set xs \<Longrightarrow> P s \<Longrightarrow> body x s = Inr s' \<Longrightarrow> P s'"
    and "P s" and "for_each body xs s = Inr s'"
  shows "P s'"
  using assms
  by (induction xs arbitrary: s) (auto split: sum.splits)

lemma map_of_set_sequence_id: "map_of (set_sequence_id n r) ''sequence-id'' = Some (IntField n)"
  by (simp add: set_sequence_id_def update_conv')

lemma sequence_ids_numbered:
  "map (\<lambda>e. map_of e ''sequence-id'') (numbered 0 R) =
     map (\<lambda>k. Some (IntField (5 * (int k + 1)))) [0..<length R]"
  by (rule nth_equalityI) (simp_all add: nth_numbered map_of_set_sequence_id mult.commute)

lemma filter_body_numbered:
  assumes "filter_body pm al af_order f self = Inr self'"
    and "\<exists>R. all_entries self = numbered 0 R \<and> total_rule_count self = int (length R)"
  shows "\<exists>R. all_entries self' = numbered 0 R \<and> total_rule_count self' = int (length R)"
proof -
  from assms(2) obtain R where R: "all_entries self = numbered 0 R"
    "total_rule_count self = int (length R)"
    by blast
  let ?sel = "select_family af_order (FilterOptions (fst f))"
  let ?R' = "concat (map (term_rules pm al (snd ?sel) (fst ?sel)) (snd f))"
  from assms(1) have "TranslateTerms pm al (snd f) (fst ?sel) (FilterName (fst f))
           (header_comment (fst f)) (snd ?sel) self = Inr self'"
    by (simp add: filter_body_def Let_def)
  from TranslateTerms_Inr [OF this] have
    "all_entries self' = all_entries self @ numbered (total_rule_count self) ?R'"
    "total_rule_count self' = total_rule_count self + int (length ?R')"
    by (auto simp: all_entries_def)
  with R have "all_entries self' = numbered 0 (R @ ?R')"
    "total_rule_count self' = int (length (R @ ?R'))"
    by (simp_all add: numbered_append)
  then show ?thesis by blast
qed

lemma TranslatePolicy_numbered:
  assumes "TranslatePolicy pm al af_order filters = Inr self"
  shows "\<exists>R. all_entries self = numbered 0 R \<and> total_rule_count self = int (length R)"
proof -
  from assms have run: "for_each (filter_body pm al af_order) filters
             \<lparr>total_rule_count = 0, acl_sets = []\<rparr> = Inr self"
    by (auto simp: TranslatePolicy_def split: sum.splits if_splits)
  show ?thesis
  proof (rule for_each_invariant [OF _ _ run])
    show "\<exists>R. all_entries \<lparr>total_rule_count = 0, acl_sets = []\<rparr> = numbered 0 R \<and>
            total_rule_count \<lparr>total_rule_count = 0, acl_sets = []\<rparr> = int (length R)"
      by (intro exI [of _ "[]"]) (simp add: all_entries_def)
  qed (rule filter_body_numbered)
qed

subsection \<open>Keys of the rules\<close>

lemma set_update_subset: "set (AList.update k v al) \<subseteq> insert (k, v) (set al)"
  by (induction al) auto

lemma update_absent: "k \<notin> fst ` set al \<Longrightarrow> AList.update k v al = al @ [(k, v)]"
  by (induction al) auto

lemma count_key_distinct: "distinct (map fst d) \<Longrightarrow> count_key k d \<le> 1"
  unfolding count_key_def
proof (induction d)
  case Nil
  show ?case by simp
next
  case (Cons kv d)
  show ?case
  proof (cases "fst kv = k")
    case True
    with Cons.prems have "k \<notin> fst ` set d" by auto
    then have "filter (\<lambda>kv. fst kv = k) d = []"
      by (auto simp: filter_empty_conv)
    with True show ?thesis by simp
  next
    case False
    with Cons show ?thesis by simp
  qed
qed

lemma wf_getitem_container:
  assumes "wf_dict d"
  shows "wf_container (getitem d a)"
proof (cases "map_of d a")
  case None
  then show ?thesis by (simp add: getitem_def wf_container_def)
next
  case (Some c)
  then have "(a, c) \<in> set d" by (rule map_of_SomeD)
  with assms have "wf_container c" by (auto simp: wf_dict_def list_all_iff)
  with Some show ?thesis by (simp add: getitem_def)
qed

lemma wf_getitem_config:
  assumes "wf_container c"
  shows "wf_config (getitem c b)"
proof (cases "map_of c b")
  case None
  then show ?thesis by (simp add: getitem_def wf_config_def)
next
  case (Some cfg)
  then have "(b, cfg) \<in> set c" by (rule map_of_SomeD)
  with assms have "wf_config cfg" by (auto simp: wf_container_def list_all_iff)
  with Some show ?thesis by (simp add: getitem_def)
qed

lemma wf_container_update:
  "wf_container c \<Longrightarrow> wf_config v \<Longrightarrow> wf_container (AList.update b v c)"
  using set_update_subset [of b v c]
  by (auto simp: wf_container_def list_all_iff distinct_update)

lemma wf_dict_update:
  "wf_dict d \<Longrightarrow> wf_container v \<Longrightarrow> wf_dict (AList.update a v d)"
  using set_update_subset [of a v d]
  by (auto simp: wf_dict_def list_all_iff distinct_update)

lemma wf_setitem2: "wf_dict d \<Longrightarrow> wf_config v \<Longrightarrow> wf_dict (setitem2 a b v d)"
  by (simp add: setitem2_def wf_dict_update wf_container_update wf_getitem_container)

lemma wf_setitem3: "wf_dict d \<Longrightarrow> wf_dict (setitem3 a b c v d)"
proof -
  assume d: "wf_dict d"
  then have "wf_config (getitem (getitem d a) b)"
    by (intro wf_getitem_config wf_getitem_container)
  then have "wf_config (AList.update c v (getitem (getitem d a) b))"
    by (simp add: wf_config_def distinct_update)
  with d show ?thesis
    by (simp add: setitem3_def wf_setitem2)
qed

lemma keys_setitem2: "fst ` set (setitem2 a b v d) = insert a (fst ` set d)"
  by (simp add: setitem2_def dom_update)

lemma keys_setitem3: "fst ` set (setitem3 a b c v d) = insert a (fst ` set d)"
  by (simp add: setitem3_def keys_setitem2)

lemma initial_wf:
  assumes "SetAction t [] = Inr d0" and "SetOptions t d0 = Inr d1"
  shows "wf_dict d1 \<and> fst ` set d1 \<subseteq> {''actions'', ''transport''}"
proof -
  from assms(1) obtain act where d0: "d0 = [(''actions'', [(''config'', [(''forwarding-action'', StrV act)])])]"
    using SetAction_empty by blast
  have wf0: "wf_dict d0"
    by (simp add: d0 wf_dict_def wf_container_def wf_config_def)
  have k0: "fst ` set d0 = {''actions''}" by (simp add: d0)
  have wfc: "wf_config (dict_update tcp_established cfg)" if "wf_config cfg" for cfg
    using that by (simp add: dict_update_def tcp_established_def wf_config_def distinct_update)
  from assms(2) have "d1 = d0 \<or>
      d1 = setitem2 ''transport'' ''config''
             (dict_update tcp_established (getitem (getitem d0 ''transport'') ''config'')) d0"
    unfolding SetOptions_def by (simp split: if_splits)
  then show ?thesis
  proof
    assume "d1 = d0"
    with wf0 k0 show ?thesis by simp
  next
    assume eq: "d1 = setitem2 ''transport'' ''config''
             (dict_update tcp_established (getitem (getitem d0 ''transport'') ''config'')) d0"
    have "wf_dict d1"
      unfolding eq
      by (intro wf_setitem2 wf0 wfc wf_getitem_config wf_getitem_container)
    moreover have "fst ` set d1 = {''transport'', ''actions''}"
      unfolding eq keys_setitem2 k0 ..
    ultimately show ?thesis by auto
  qed
qed

subsection \<open>Address-family blocks of the entries\<close>

lemma family_blocks_append [simp]:
  "family_blocks (xs @ ys) = family_blocks xs @ family_blocks ys"
  by (simp add: family_blocks_def)

lemma family_blocks_rule:
  "family_blocks (map (\<lambda>(k, c). (k, DictField c)) r) =
     map snd (filter (\<lambda>kv. fst kv = ''ipv4'' \<or> fst kv = ''ipv6'') r)"
  by (induction r) (auto simp: family_blocks_def)

lemma family_blocks_set_sequence_id:
  assumes wf: "wf_dict r" and keys: "fst ` set r \<subseteq> {''actions'', ''transport'', fam}"
    and fam: "fam = ''ipv4'' \<or> fam = ''ipv6''"
  shows "length (family_blocks (set_sequence_id n r)) \<le> 1"
    and "list_all one_address_each (family_blocks (set_sequence_id n r))"
proof -
  have "''sequence-id'' \<notin> fst ` set r"
    using keys fam by auto
  then have "''sequence-id'' \<notin> fst ` set (map (\<lambda>(k, c). (k, DictField c)) r)"
    by (auto simp: image_iff split: prod.splits)
  then have "set_sequence_id n r =
      map (\<lambda>(k, c). (k, DictField c)) r @ [(''sequence-id'', IntField n)]"
    unfolding set_sequence_id_def by (rule update_absent)
  then have fb: "family_blocks (set_sequence_id n r) =
      map snd (filter (\<lambda>kv. fst kv = ''ipv4'' \<or> fst kv = ''ipv6'') r)"
    by (simp add: family_blocks_rule) (simp add: family_blocks_def)
  have "filter (\<lambda>kv. fst kv = ''ipv4'' \<or> fst kv = ''ipv6'') r = filter (\<lambda>kv. fst kv = fam) r"
    by (rule filter_cong) (use keys fam in auto)
  then have "length (family_blocks (set_sequence_id n r)) = count_key fam r"
    by (simp add: fb count_key_def)
  also have "\<dots> \<le> 1"
    using wf by (intro count_key_distinct) (simp add: wf_dict_def)
  finally show "length (family_blocks (set_sequence_id n r)) \<le> 1" .
  have "one_address_each c" if "c \<in> snd ` set r" for c
  proof -
    from that wf have "wf_container c"
      by (auto simp: wf_dict_def list_all_iff)
    then have "\<forall>kv\<in>set c. distinct (map fst (snd kv))"
      by (simp add: wf_container_def wf_config_def list_all_iff)
    then show ?thesis
      unfolding one_address_each_def list_all_iff
      using count_key_distinct by blast
  qed
  then show "list_all one_address_each (family_blocks (set_sequence_id n r))"
    unfolding fb list_all_iff by auto
qed

lemma numbered_entry:
  assumes "e \<in> set (numbered c R)"
  shows "\<exists>n r. e = set_sequence_id n r \<and> r \<in> set R"
proof -
  from assms obtain i where i: "i < length R" and e: "e = numbered c R ! i"
    by (auto simp: in_set_conv_nth)
  from i have "R ! i \<in> set R" by simp
  with e nth_numbered [OF i, of c] show ?thesis by blast
qed

subsection \<open>Where an entry of a run comes from\<close>

lemma filter_body_entries:
  assumes "filter_body pm al af_order f self = Inr self'"
    and "e \<in> set (all_entries self')"
  shows "e \<in> set (all_entries self) \<or>
         (\<exists>t term_af rules j n. t \<in> set (snd f) \<and>
            term_af \<in> set (term_address_families (fst (select_family af_order (FilterOptions (fst f))))) \<and>
            Term_convert pm al t term_af (snd (select_family af_order (FilterOptions (fst f)))) = Inr rules \<and>
            j < length rules \<and> e = set_sequence_id n (rules ! j))"
proof -
  let ?sel = "select_family af_order (FilterOptions (fst f))"
  let ?R = "concat (map (term_rules pm al (snd ?sel) (fst ?sel)) (snd f))"
  from assms(1) have "TranslateTerms pm al (snd f) (fst ?sel) (FilterName (fst f))
           (header_comment (fst f)) (snd ?sel) self = Inr self'"
    by (simp add: filter_body_def Let_def)
  from TranslateTerms_Inr [OF this] have
    "all_entries self' = all_entries self @ numbered (total_rule_count self) ?R"
    by (auto simp: all_entries_def)
  with assms(2) consider "e \<in> set (all_entries self)"
    | "e \<in> set (numbered (total_rule_count self) ?R)"
    by auto
  then show ?thesis
  proof cases
    case 1
    then show ?thesis ..
  next
    case 2
    from numbered_entry [OF this] obtain n r where e: "e = set_sequence_id n r" and r: "r \<in> set ?R"
      by blast
    from r obtain t term_af where t: "t \<in> set (snd f)"
      and ta: "term_af \<in> set (term_address_families (fst ?sel))"
      and "r \<in> set (rules_of (Term_convert pm al t term_af (snd ?sel)))"
      by (auto simp: term_rules_def)
    then obtain rules where conv: "Term_convert pm al t term_af (snd ?sel) = Inr rules"
      and "r \<in> set rules"
      by (cases "Term_convert pm al t term_af (snd ?sel)") (simp_all add: rules_of_def)
    then obtain j where "j < length rules" "r = rules ! j"
      by (auto simp: in_set_conv_nth)
    with e t ta conv show ?thesis by blast
  qed
qed

lemma TranslatePolicy_entries:
  assumes "TranslatePolicy pm al af_order filters = Inr self" and "e \<in> set (all_entries self)"
  shows "\<exists>f t term_af rules j n. f \<in> set filters \<and> t \<in> set (snd f) \<and>
           term_af \<in> set (term_address_families (fst (select_family af_order (FilterOptions (fst f))))) \<and>
           Term_convert pm al t term_af (snd (select_family af_order (FilterOptions (fst f)))) = Inr rules \<and>
           j < length rules \<and> e = set_sequence_id n (rules ! j)"
proof -
  let ?P = "\<lambda>s. \<forall>e\<in>set (all_entries s).
      \<exists>f t term_af rules j n. f \<in> set filters \<and> t \<in> set (snd f) \<and>
           term_af \<in> set (term_address_families (fst (select_family af_order (FilterOptions (fst f))))) \<and>
           Term_convert pm al t term_af (snd (select_family af_order (FilterOptions (fst f)))) = Inr rules \<and>
           j < length rules \<and> e = set_sequence_id n (rules ! j)"
  from assms(1) have run: "for_each (filter_body pm al af_order) filters
             \<lparr>total_rule_count = 0, acl_sets = []\<rparr> = Inr self"
    by (auto simp: TranslatePolicy_def split: sum.splits if_splits)
  have "?P self"
  proof (rule for_each_invariant [where P = ?P, OF _ _ run])
    show "?P \<lparr>total_rule_count = 0, acl_sets = []\<rparr>"
      by (simp add: all_entries_def)
  next
    fix f s s'
    assume f: "f \<in> set filters" and P: "?P s" and b: "filter_body pm al af_order f s = Inr s'"
    show "?P s'"
    proof
      fix e assume "e \<in> set (all_entries s')"
      from filter_body_entries [OF b this] show
        "\<exists>f t term_af rules j n. f \<in> set filters \<and> t \<in> set (snd f) \<and>
           term_af \<in> set (term_address_families (fst (select_family af_order (FilterOptions (fst f))))) \<and>
           Term_convert pm al t term_af (snd (select_family af_order (FilterOptions (fst f)))) = Inr rules \<and>
           j < length rules \<and> e = set_sequence_id n (rules ! j)"
      proof
        assume "e \<in> set (all_entries s)"
        with P show ?thesis by blast
      next
        assume "\<exists>t term_af rules j n. t \<in> set (snd f) \<and>
            term_af \<in> set (term_address_families (fst (select_family af_order (FilterOptions (fst f))))) \<and>
            Term_convert pm al t term_af (snd (select_family af_order (FilterOptions (fst f)))) = Inr rules \<and>
            j < length rules \<and> e = set_sequence_id n (rules ! j)"
        with f show ?thesis by blast
      qed
    qed
  qed
  with assms(2) show ?thesis by blast
qed

subsection \<open>The address-family block of a rule\<close>

lemma lookup3_getitem:
  "map_of (getitem (getitem r a) b) c = lookup3 r a b c"
  by (simp add: lookup3_def getitem_def split: option.splits)

lemma filter_key_distinct:
  "distinct (map fst r) \<Longrightarrow>
     map snd (filter (\<lambda>kv. fst kv = k) r) = (case map_of r k of None \<Rightarrow> [] | Some v \<Rightarrow> [v])"
proof (induction r)
  case Nil
  show ?case by simp
next
  case (Cons x r)
  show ?case
  proof (cases "fst x = k")
    case True
    with Cons.prems have "k \<notin> fst ` set r" by auto
    then have "filter (\<lambda>kv. fst kv = k) r = []"
      by (auto simp: filter_empty_conv)
    with True show ?thesis by (cases x) simp
  next
    case False
    with Cons show ?thesis by (cases x) simp
  qed
qed

lemma family_blocks_entry:
  assumes wf: "wf_dict r" and keys: "fst ` set r \<subseteq> {''actions'', ''transport'', fam}"
    and fam: "fam = ''ipv4'' \<or> fam = ''ipv6''"
  shows "family_blocks (set_sequence_id n r) =
           (if fam \<in> fst ` set r then [getitem r fam] else [])"
proof -
  have "''sequence-id'' \<notin> fst ` set r"
    using keys fam by auto
  then have "''sequence-id'' \<notin> fst ` set (map (\<lambda>(k, c). (k, DictField c)) r)"
    by (auto simp: image_iff split: prod.splits)
  then have "set_sequence_id n r =
      map (\<lambda>(k, c). (k, DictField c)) r @ [(''sequence-id'', IntField n)]"
    unfolding set_sequence_id_def by (rule update_absent)
  then have fb: "family_blocks (set_sequence_id n r) =
      map snd (filter (\<lambda>kv. fst kv = ''ipv4'' \<or> fst kv = ''ipv6'') r)"
    by (simp add: family_blocks_rule) (simp add: family_blocks_def)
  have "filter (\<lambda>kv. fst kv = ''ipv4'' \<or> fst kv = ''ipv6'') r = filter (\<lambda>kv. fst kv = fam) r"
    by (rule filter_cong) (use keys fam in auto)
  then have "family_blocks (set_sequence_id n r) =
      (case map_of r fam of None \<Rightarrow> [] | Some v \<Rightarrow> [v])"
    using wf by (simp add: fb filter_key_distinct wf_dict_def)
  moreover have "fam \<in> fst ` set r \<longleftrightarrow> map_of r fam \<noteq> None"
    by (simp add: map_of_eq_None_iff)
  ultimately show ?thesis
    by (cases "map_of r fam") (simp_all add: getitem_def)
qed

lemma ConvertToDict_family_key:
  assumes conv: "ConvertToDict pm t iv fo = Inr rules"
    and af: "map_of AF_MAP iv = Some af" and fam: "map_of AF_RENAME af = Some fam"
    and j: "j < length rules"
  shows "fam \<in> fst ` set (rules ! j) \<longleftrightarrow> family_set pm t af j"
proof -
  from fam have f: "fam = ''ipv4'' \<or> fam = ''ipv6''"
    by (auto simp: AF_RENAME_cases)
  then have ft: "fam \<noteq> ''transport''" by auto
  let ?I = "\<lambda>d. fam \<in> fst ` set d \<longleftrightarrow>
      lookup3 d fam ''config'' ''source-address'' \<noteq> None \<or>
      lookup3 d fam ''config'' ''destination-address'' \<noteq> None \<or>
      lookup3 d fam ''config'' ''protocol'' \<noteq> None"
  have "\<forall>i<length rules. entry_ok ?I (\<lambda>_ _. True) (\<lambda>_ _. True) (\<lambda>_ _. True) pm (sports_of t) (dports_of t)
          (protos_of t) i (rules ! i)"
  proof (rule ConvertToDict_entries(2) [OF conv af fam])
    fix d0 d1 assume d: "SetAction t [] = Inr d0" "SetOptions t d0 = Inr d1"
    from initial_wf [OF d] f have "fam \<notin> fst ` set d1" by auto
    with initial_fields(3) [OF d f] show "?I d1" by simp
  next
    fix n d assume "?I d"
    show "?I (SetProtocol fam n d)"
      by (simp add: lookup3_SetProtocol) (simp add: SetProtocol_def keys_setitem3)
  next
    fix x :: "int \<times> int" and d assume "?I d"
    then show "?I (SetDestPorts (fst x) (snd x) d)"
      using ft by (simp add: lookup3_SetDestPorts) (simp add: SetDestPorts_def keys_setitem3)
  next
    fix x :: "int \<times> int" and d assume "?I d"
    then show "?I (SetSourcePorts (fst x) (snd x) d)"
      using ft by (simp add: lookup3_SetSourcePorts) (simp add: SetSourcePorts_def keys_setitem3)
  next
    fix a d assume "?I d"
    show "?I (SetDestAddress fam a d)"
      by (simp add: lookup3_SetDestAddress) (simp add: SetDestAddress_def keys_setitem3)
  next
    fix a d assume "?I d"
    show "?I (SetSourceAddress fam a d)"
      by (simp add: lookup3_SetSourceAddress) (simp add: SetSourceAddress_def keys_setitem3)
  qed simp_all
  with j have "?I (rules ! j)"
    by (simp add: entry_ok_def)
  then show ?thesis
    unfolding ConvertToDict_family_set [OF conv af fam j] .
qed

lemma ConvertToDict_wf_family:
  assumes conv: "ConvertToDict pm t iv fo = Inr rules"
    and af: "map_of AF_MAP iv = Some af" and fam: "map_of AF_RENAME af = Some fam"
    and j: "j < length rules"
  shows "wf_dict (rules ! j)" and "fst ` set (rules ! j) \<subseteq> {''actions'', ''transport'', fam}"
proof -
  let ?I = "\<lambda>d. wf_dict d \<and> fst ` set d \<subseteq> {''actions'', ''transport'', fam}"
  have "\<forall>i<length rules. entry_ok ?I (\<lambda>_ _. True) (\<lambda>_ _. True) (\<lambda>_ _. True) pm (sports_of t) (dports_of t)
          (protos_of t) i (rules ! i)"
  proof (rule ConvertToDict_entries(2) [OF conv af fam])
    fix d0 d1 assume "SetAction t [] = Inr d0" "SetOptions t d0 = Inr d1"
    from initial_wf [OF this] show "?I d1" by auto
  qed (auto simp: SetProtocol_def SetDestPorts_def SetSourcePorts_def SetDestAddress_def
      SetSourceAddress_def wf_setitem3 keys_setitem3)
  with j have "?I (rules ! j)"
    by (simp add: entry_ok_def)
  then show "wf_dict (rules ! j)" and "fst ` set (rules ! j) \<subseteq> {''actions'', ''transport'', fam}"
    by simp_all
qed

lemma ConvertToDict_block:
  assumes conv: "ConvertToDict pm t iv fo = Inr rules"
    and af: "map_of AF_MAP iv = Some af" and fam: "map_of AF_RENAME af = Some fam"
    and j: "j < length rules"
  shows "family_blocks (set_sequence_id n (rules ! j)) =
           (if family_set pm t af j then [getitem (rules ! j) fam] else [])"
    and "list_all one_address_each (family_blocks (set_sequence_id n (rules ! j)))"
    and "map_of (getitem (getitem (rules ! j) fam) ''config'') ''source-address''
           \<in> set (address_leaves (GetAddressOfVersion (flattened_saddr t) af))"
    and "map_of (getitem (getitem (rules ! j) fam) ''config'') ''destination-address''
           \<in> set (address_leaves (GetAddressOfVersion (flattened_daddr t) af))"
proof -
  note wf = ConvertToDict_wf_family [OF conv af fam j]
  from fam have f: "fam = ''ipv4'' \<or> fam = ''ipv6''"
    by (auto simp: AF_RENAME_cases)
  show "list_all one_address_each (family_blocks (set_sequence_id n (rules ! j)))"
    by (rule family_blocks_set_sequence_id(2) [OF wf f])
  show "family_blocks (set_sequence_id n (rules ! j)) =
           (if family_set pm t af j then [getitem (rules ! j) fam] else [])"
    unfolding family_blocks_entry [OF wf f] ConvertToDict_family_key [OF conv af fam j] ..
  show "map_of (getitem (getitem (rules ! j) fam) ''config'') ''source-address''
           \<in> set (address_leaves (GetAddressOfVersion (flattened_saddr t) af))"
    unfolding lookup3_getitem ConvertToDict_fields(1) [OF conv af fam j]
    using addr_leaf [of _ 1] by simp
  show "map_of (getitem (getitem (rules ! j) fam) ''config'') ''destination-address''
           \<in> set (address_leaves (GetAddressOfVersion (flattened_daddr t) af))"
    unfolding lookup3_getitem ConvertToDict_fields(2) [OF conv af fam j]
    by (rule addr_leaf)
qed

subsection \<open>What the constructor lets through\<close>





subsection \<open>More examples\<close>


lemma sentinel_term_rules:
  "ConvertToDict example_protos sentinel_term ''inet'' [] =
     Inr [[(''actions'', [(''config'', [(''forwarding-action'', StrV ''ACCEPT'')])]),
           (''transport'', [(''config'', [(''source-port'', IntV 80)])])],
          [(''actions'', [(''config'', [(''forwarding-action'', StrV ''ACCEPT'')])]),
           (''transport'', [(''config'', [(''source-port'', IntV 443)])])],
          [(''actions'', [(''config'', [(''forwarding-action'', StrV ''ACCEPT'')])]),
           (''transport'', [(''config'', [(''source-port'', IntV 443)])])]]"
  by (simp add: eval_defs sentinel_term_def)

lemma stale_term_rules:
  "ConvertToDict example_protos stale_term ''inet'' [] =
     Inr [[(''actions'', [(''config'', [(''forwarding-action'', StrV ''ACCEPT'')])]),
           (''ipv4'', [(''config'', [(''source-address'', StrV ''10.0.0.0/8'')])])],
          [(''actions'', [(''config'', [(''forwarding-action'', StrV ''ACCEPT'')])]),
           (''ipv4'', [(''config'', [(''source-address'', StrV ''10.0.0.0/8'')])]),
           (''transport'', [(''config'', [(''source-port'', IntV 80)])])],
          [(''actions'', [(''config'', [(''forwarding-action'', StrV ''ACCEPT'')])]),
           (''ipv4'', [(''config'', [(''source-address'', StrV ''192.168.0.0/16'')])]),
           (''transport'', [(''config'', [(''source-port'', IntV 80)])])],
          [(''actions'', [(''config'', [(''forwarding-action'', StrV ''ACCEPT'')])]),
           (''ipv4'', [(''config'', [(''source-address'', StrV ''192.168.0.0/16'')])]),
           (''transport'', [(''config'', [(''source-port'', IntV 80)])])]]"
  by (simp add: eval_defs stale_term_def)

lemma stale_term_init:
  "Term_init example_protos example_always stale_term = Inr stale_term"
  by (simp add: Term_init_no_protocol stale_term_def)


section \<open>The claims\<close>

text \<open>
  C1. For every term and every single address family, on the inputs on which nothing is
  raised (a family of \<open>AF_MAP\<close>, a known action, no tcp-established option without the
  protocol list [tcp], every protocol name known or none), \<^verbatim>\<open>ConvertToDict\<close> returns exactly
  a * b * p * q * r rules: the numbers of source addresses of the family, destination
  addresses of the family, source port ranges, destination port ranges and protocols, each
  counted as 1 when the list is empty; so no dimension contributes 0.
\<close>

theorem C1_cardinality:
  assumes "map_of AF_MAP inet_version = Some term_af"
    and "action_ok t" and "options_ok t"
    and "list_all (proto_known PROTO_MAP) (protocol t)"
  shows "\<exists>rules. ConvertToDict PROTO_MAP t inet_version filter_options = Inr rules \<and>
           length rules =
             dim (GetAddressOfVersion (flattened_saddr t) term_af) *
             dim (GetAddressOfVersion (flattened_daddr t) term_af) *
             dim (source_port t) * dim (destination_port t) * dim (protocol t) \<and>
           0 < length rules"
proof -
  from assms obtain rules where conv: "ConvertToDict PROTO_MAP t inet_version filter_options = Inr rules"
    using ConvertToDict_succeeds [of inet_version t PROTO_MAP filter_options]
    by (auto simp: list_all_iff)
  from assms(1) obtain fam where fam: "map_of AF_RENAME term_af = Some fam"
    by (auto simp: AF_MAP_cases AF_RENAME_cases)
  have "length rules =
           dim (protocol t) * dim (destination_port t) * dim (source_port t) *
           dim (GetAddressOfVersion (flattened_daddr t) term_af) *
           dim (GetAddressOfVersion (flattened_saddr t) term_af)"
    by (rule ConvertToDict_entries(1)
        [OF conv assms(1) fam, where I = "\<lambda>_. True" and Epr = "\<lambda>_ _. True" and Edp = "\<lambda>_ _. True"
          and Esp = "\<lambda>_ _. True"]) simp_all
  then have len: "length rules =
             dim (GetAddressOfVersion (flattened_saddr t) term_af) *
             dim (GetAddressOfVersion (flattened_daddr t) term_af) *
             dim (source_port t) * dim (destination_port t) * dim (protocol t)"
    by (simp add: mult_ac)
  have "0 < dim (GetAddressOfVersion (flattened_saddr t) term_af) *
             dim (GetAddressOfVersion (flattened_daddr t) term_af) *
             dim (source_port t) * dim (destination_port t) * dim (protocol t)"
    by simp
  then have "0 < length rules" unfolding len .
  with conv len show ?thesis by blast
qed

text \<open>C1 at an input that satisfies its hypotheses: 2 * 1 * 1 * 2 * 2 = 8 rules.\<close>

theorem C1_cardinality_witness:
  "map_of AF_MAP ''inet'' = Some 4 \<and> action_ok example_term \<and> options_ok example_term \<and>
   list_all (proto_known example_protos) (protocol example_term) \<and>
   (\<exists>rules. ConvertToDict example_protos example_term ''inet'' [] = Inr rules \<and> length rules = 8)"
proof -
  have h1: "map_of AF_MAP ''inet'' = Some 4" by (simp add: AF_MAP_def)
  have h2: "action_ok example_term" by (simp add: action_ok_def example_term_def ACTION_MAP_def)
  have h3: "options_ok example_term" by (simp add: options_ok_def example_term_def)
  have h4: "list_all (proto_known example_protos) (protocol example_term)"
    by (simp add: proto_known_def example_term_def example_protos_def)
  have "dim (GetAddressOfVersion (flattened_saddr example_term) 4) *
             dim (GetAddressOfVersion (flattened_daddr example_term) 4) *
             dim (source_port example_term) * dim (destination_port example_term) *
             dim (protocol example_term) = 8"
    by (simp add: dim_def GetAddressOfVersion_def example_term_def)
  with C1_cardinality [OF h1 h2 h3 h4, of "[]"] h1 h2 h3 h4 show ?thesis by auto
qed

text \<open>
  C2. For every policy that one call of \<^verbatim>\<open>_TranslatePolicy\<close> translates, the sequence-id
  values of the entries of all its rule sets, in the order in which they were appended
  across all filters and families, are exactly 5, 10, 15, ..., 5 * N, where N is the number
  of entries, which is also the final value of the counter: the counter starts at 0 once
  per call and no filter resets it, so no two entries of the run have the same value.
\<close>

theorem C2_sequence_ids:
  assumes "TranslatePolicy PROTO_MAP ALWAYS_PROTO_NUM af_order filters = Inr self"
  shows "map (\<lambda>e. map_of e ''sequence-id'') (all_entries self) =
           map (\<lambda>k. Some (IntField (5 * (int k + 1)))) [0..<length (all_entries self)] \<and>
         total_rule_count self = int (length (all_entries self)) \<and>
         distinct (map (\<lambda>e. map_of e ''sequence-id'') (all_entries self))"
proof -
  from TranslatePolicy_numbered [OF assms] obtain R where
    R: "all_entries self = numbered 0 R" "total_rule_count self = int (length R)"
    by blast
  have ids: "map (\<lambda>e. map_of e ''sequence-id'') (all_entries self) =
           map (\<lambda>k. Some (IntField (5 * (int k + 1)))) [0..<length (all_entries self)]"
    by (simp add: R sequence_ids_numbered)
  have "inj_on (\<lambda>k. Some (IntField (5 * (int k + 1)))) (set [0..<length (all_entries self)])"
    by (rule inj_onI) simp
  then have "distinct (map (\<lambda>k. Some (IntField (5 * (int k + 1)))) [0..<length (all_entries self)])"
    by (simp add: distinct_map)
  with ids R show ?thesis by simp
qed

text \<open>
  C2 at the example policy, a mixed filter of two terms and an inet filter of one term:
  the five entries have the values 5, 10, 15, 20 in the first rule set and 25 in the
  second.
\<close>

theorem C2_sequence_ids_witness:
  "\<exists>self. TranslatePolicy example_protos example_always [''inet'', ''inet6'', ''mixed''] example_policy = Inr self \<and>
     map (\<lambda>e. map_of e ''sequence-id'') (all_entries self) =
       [Some (IntField 5), Some (IntField 10), Some (IntField 15), Some (IntField 20),
        Some (IntField 25)] \<and>
     map length (map acl_entries (acl_sets self)) = [4, 1] \<and>
     total_rule_count self = 5"
proof -
  obtain self where
    run: "TranslatePolicy example_protos example_always [''inet'', ''inet6'', ''mixed''] example_policy = Inr self"
    and sets: "map length (map acl_entries (acl_sets self)) = [4, 1]"
    using example_policy_result by simp
  from sets have len: "length (all_entries self) = 5"
    by (simp add: all_entries_def length_concat)
  have upt: "[0..<5] = [0, 1, 2, 3, 4]"
    by (simp add: upt_rec)
  from C2_sequence_ids [OF run] have
    "map (\<lambda>e. map_of e ''sequence-id'') (all_entries self) =
       [Some (IntField 5), Some (IntField 10), Some (IntField 15), Some (IntField 20),
        Some (IntField 25)]"
    "total_rule_count self = 5"
    unfolding len upt by simp_all
  with run sets show ?thesis
    by (intro exI [of _ self] conjI)
qed

text \<open>
  C3. For every filter declared mixed, \<^verbatim>\<open>_TranslateTerms\<close> appends a single rule set, of
  type ACL_MIXED, and its entries are, numbered in this order: for each term in the order
  of the filter, the rules of the term's inet conversion and then the rules of its inet6
  conversion, before the rules of the next term. A conversion is a pass of the loop over
  the families: the constructor, then \<^verbatim>\<open>ConvertToDict\<close>; none of them raised.
\<close>

theorem C3_mixed_interleaving:
  assumes "TranslateTerms PROTO_MAP ALWAYS_PROTO_NUM terms ''mixed'' filter_name hdr_comments filter_options self =
             Inr self'"
  shows "acl_sets self' = acl_sets self @
           [\<lparr>acl_entries =
               numbered (total_rule_count self)
                 (concat (map (\<lambda>t. rules_of (Term_convert PROTO_MAP ALWAYS_PROTO_NUM t ''inet'' filter_options) @
                                     rules_of (Term_convert PROTO_MAP ALWAYS_PROTO_NUM t ''inet6'' filter_options))
                            terms)),
             config = \<lparr>config_name = filter_name, config_type = ''ACL_MIXED''\<rparr>,
             set_name = filter_name, set_type = ''ACL_MIXED''\<rparr>] \<and>
         list_all (\<lambda>t. Term_convert PROTO_MAP ALWAYS_PROTO_NUM t ''inet'' filter_options =
                          Inr (rules_of (Term_convert PROTO_MAP ALWAYS_PROTO_NUM t ''inet'' filter_options)) \<and>
                        Term_convert PROTO_MAP ALWAYS_PROTO_NUM t ''inet6'' filter_options =
                          Inr (rules_of (Term_convert PROTO_MAP ALWAYS_PROTO_NUM t ''inet6'' filter_options)))
           terms"
proof -
  have tr: "term_rules PROTO_MAP ALWAYS_PROTO_NUM filter_options ''mixed'' =
          (\<lambda>t. rules_of (Term_convert PROTO_MAP ALWAYS_PROTO_NUM t ''inet'' filter_options) @
                 rules_of (Term_convert PROTO_MAP ALWAYS_PROTO_NUM t ''inet6'' filter_options))"
    by (rule ext) (simp add: term_rules_def term_address_families_def)
  from TranslateTerms_Inr [OF assms] have sets: "acl_sets self' = acl_sets self @
           [\<lparr>acl_entries =
               numbered (total_rule_count self)
                 (concat (map (\<lambda>t. rules_of (Term_convert PROTO_MAP ALWAYS_PROTO_NUM t ''inet'' filter_options) @
                                     rules_of (Term_convert PROTO_MAP ALWAYS_PROTO_NUM t ''inet6'' filter_options))
                            terms)),
             config = \<lparr>config_name = filter_name, config_type = ''ACL_MIXED''\<rparr>,
             set_name = filter_name, set_type = ''ACL_MIXED''\<rparr>]"
    unfolding tr by (auto simp: FAMILY_MAP_def)
  have "Term_convert PROTO_MAP ALWAYS_PROTO_NUM t term_af filter_options =
          Inr (rules_of (Term_convert PROTO_MAP ALWAYS_PROTO_NUM t term_af filter_options))"
    if "t \<in> set terms" "term_af = ''inet'' \<or> term_af = ''inet6''" for t term_af
  proof -
    from that(2) have "term_af \<in> set (term_address_families ''mixed'')"
      by (auto simp: term_address_families_def)
    from TranslateTerms_converts [OF assms that(1) this] show ?thesis
      by (auto simp: rules_of_def)
  qed
  then have "list_all (\<lambda>t. Term_convert PROTO_MAP ALWAYS_PROTO_NUM t ''inet'' filter_options =
                          Inr (rules_of (Term_convert PROTO_MAP ALWAYS_PROTO_NUM t ''inet'' filter_options)) \<and>
                        Term_convert PROTO_MAP ALWAYS_PROTO_NUM t ''inet6'' filter_options =
                          Inr (rules_of (Term_convert PROTO_MAP ALWAYS_PROTO_NUM t ''inet6'' filter_options)))
           terms"
    unfolding list_all_iff by blast
  with sets show ?thesis by blast
qed

text \<open>
  C3 at a mixed filter of two terms: the entries are t1's inet rule (5), t1's inet6 rule
  (10), t2's inet rule (15) and t2's inet6 rule (20), in one rule set.
\<close>

theorem C3_mixed_interleaving_witness:
  "\<exists>self'. TranslateTerms example_protos example_always [mixed_term1, mixed_term2] ''mixed'' ''edge'' [] []
              \<lparr>total_rule_count = 0, acl_sets = []\<rparr> = Inr self' \<and>
     acl_sets self' =
       [\<lparr>acl_entries =
           numbered 0
             (rules_of (Term_convert example_protos example_always mixed_term1 ''inet'' []) @
              rules_of (Term_convert example_protos example_always mixed_term1 ''inet6'' []) @
              rules_of (Term_convert example_protos example_always mixed_term2 ''inet'' []) @
              rules_of (Term_convert example_protos example_always mixed_term2 ''inet6'' [])),
         config = \<lparr>config_name = ''edge'', config_type = ''ACL_MIXED''\<rparr>,
         set_name = ''edge'', set_type = ''ACL_MIXED''\<rparr>] \<and>
     map (\<lambda>e. (map_of e ''ipv4'' \<noteq> None, map_of e ''ipv6'' \<noteq> None))
       (numbered 0
             (rules_of (Term_convert example_protos example_always mixed_term1 ''inet'' []) @
              rules_of (Term_convert example_protos example_always mixed_term1 ''inet6'' []) @
              rules_of (Term_convert example_protos example_always mixed_term2 ''inet'' []) @
              rules_of (Term_convert example_protos example_always mixed_term2 ''inet6'' []))) =
       [(True, False), (False, True), (True, False), (False, True)]"
proof -
  obtain self' where run: "TranslateTerms example_protos example_always [mixed_term1, mixed_term2] ''mixed'' ''edge'' [] []
              \<lparr>total_rule_count = 0, acl_sets = []\<rparr> = Inr self'"
    using example_mixed_filter by simp
  have fams: "map (\<lambda>e. (map_of e ''ipv4'' \<noteq> None, map_of e ''ipv6'' \<noteq> None))
       (numbered 0
             (rules_of (Term_convert example_protos example_always mixed_term1 ''inet'' []) @
              rules_of (Term_convert example_protos example_always mixed_term1 ''inet6'' []) @
              rules_of (Term_convert example_protos example_always mixed_term2 ''inet'' []) @
              rules_of (Term_convert example_protos example_always mixed_term2 ''inet6'' []))) =
       [(True, False), (False, True), (True, False), (False, True)]"
    by (simp add: Term_convert_def example_inits mixed_term1_rules mixed_term2_rules rules_of_def
        set_sequence_id_def)
  from C3_mixed_interleaving [OF run]
  have sets: "acl_sets self' =
       [\<lparr>acl_entries =
           numbered 0
             (rules_of (Term_convert example_protos example_always mixed_term1 ''inet'' []) @
              rules_of (Term_convert example_protos example_always mixed_term1 ''inet6'' []) @
              rules_of (Term_convert example_protos example_always mixed_term2 ''inet'' []) @
              rules_of (Term_convert example_protos example_always mixed_term2 ''inet6'' [])),
         config = \<lparr>config_name = ''edge'', config_type = ''ACL_MIXED''\<rparr>,
         set_name = ''edge'', set_type = ''ACL_MIXED''\<rparr>]"
    by simp
  from run sets fams show ?thesis
    by (intro exI [of _ self'] conjI)
qed

text \<open>
  C4. For every term that carries the tcp-established option (converted for a family of
  \<open>AF_MAP\<close>, with a known action, \<open>PROTO_MAP\<close> knowing tcp): if its protocol list is exactly
  [tcp], the conversion succeeds and every rule has detail-mode = BUILTIN and
  builtin-detail = TCP_ESTABLISHED in its transport config; if its protocol list is
  anything else, the conversion raises TcpEstablishedWithNonTcpError, so no rule is returned.
\<close>

theorem C4_tcp_established:
  assumes "map_of AF_MAP inet_version = Some term_af" and "action_ok t"
    and "''tcp-established'' \<in> set (option t)"
    and "map_of PROTO_MAP ''tcp'' = Some tcp"
  shows "if protocol t = [ProtoName ''tcp''] then
           \<exists>rules. ConvertToDict PROTO_MAP t inet_version filter_options = Inr rules \<and>
             rules \<noteq> [] \<and>
             list_all (\<lambda>r. lookup3 r ''transport'' ''config'' ''detail-mode'' = Some (StrV ''BUILTIN'') \<and>
                            lookup3 r ''transport'' ''config'' ''builtin-detail'' =
                              Some (StrV ''TCP_ESTABLISHED'')) rules
         else ConvertToDict PROTO_MAP t inet_version filter_options =
                Inl (TcpEstablishedWithNonTcpError
                      (''tcp-established can only be used with tcp protocol in term '' @ name t))"
proof (cases "protocol t = [ProtoName ''tcp'']")
  case False
  then show ?thesis
    using ConvertToDict_conflict [OF assms(1-3)] by simp
next
  case True
  let ?I = "\<lambda>r. lookup3 r ''transport'' ''config'' ''detail-mode'' = Some (StrV ''BUILTIN'') \<and>
                 lookup3 r ''transport'' ''config'' ''builtin-detail'' = Some (StrV ''TCP_ESTABLISHED'')"
  from assms(1) obtain fam where fam: "map_of AF_RENAME term_af = Some fam"
    by (auto simp: AF_MAP_cases AF_RENAME_cases)
  have "\<exists>rules. ConvertToDict PROTO_MAP t inet_version filter_options = Inr rules"
    by (rule ConvertToDict_succeeds)
      (use assms True in \<open>simp_all add: options_ok_def proto_known_def\<close>)
  then obtain rules where conv: "ConvertToDict PROTO_MAP t inet_version filter_options = Inr rules" ..
  note ent = ConvertToDict_entries [OF conv assms(1) fam, where I = ?I and Epr = "\<lambda>_ _. True"
      and Edp = "\<lambda>_ _. True" and Esp = "\<lambda>_ _. True"]
  have len: "0 < length rules"
    by (subst ent(1)) (simp_all add: lookup3_setters SetOptions_marker [OF _ assms(3)])
  have "\<forall>i<length rules. ?I (rules ! i)"
    using ent(2) by (simp add: entry_ok_def lookup3_setters SetOptions_marker [OF _ assms(3)])
  then have "list_all ?I rules"
    unfolding list_all_length .
  with conv len True show ?thesis by auto
qed

text \<open>
  C4 at a term with the option and the protocol list [tcp], and at the same term with the
  protocol list [tcp, udp].
\<close>

theorem C4_tcp_established_witness:
  "map_of AF_MAP ''inet'' = Some 4 \<and> action_ok established_term \<and>
   ''tcp-established'' \<in> set (option established_term) \<and>
   map_of example_protos ''tcp'' = Some 6 \<and>
   protocol established_term = [ProtoName ''tcp''] \<and>
   (\<exists>rules. ConvertToDict example_protos established_term ''inet'' [] = Inr rules \<and>
      rules \<noteq> [] \<and>
      list_all (\<lambda>r. lookup3 r ''transport'' ''config'' ''detail-mode'' = Some (StrV ''BUILTIN'') \<and>
                     lookup3 r ''transport'' ''config'' ''builtin-detail'' =
                       Some (StrV ''TCP_ESTABLISHED'')) rules) \<and>
   action_ok (established_term\<lparr>protocol := [ProtoName ''tcp'', ProtoName ''udp'']\<rparr>) \<and>
   ConvertToDict example_protos (established_term\<lparr>protocol := [ProtoName ''tcp'', ProtoName ''udp'']\<rparr>)
       ''inet'' [] =
     Inl (TcpEstablishedWithNonTcpError
           ''tcp-established can only be used with tcp protocol in term allow-return'')"
proof -
  let ?t2 = "established_term\<lparr>protocol := [ProtoName ''tcp'', ProtoName ''udp'']\<rparr>"
  have h1: "map_of AF_MAP ''inet'' = Some 4" by (simp add: AF_MAP_def)
  have h2: "action_ok established_term" "action_ok ?t2"
    by (simp_all add: action_ok_def established_term_def ACTION_MAP_def)
  have h3: "''tcp-established'' \<in> set (option established_term)" "''tcp-established'' \<in> set (option ?t2)"
    by (simp_all add: established_term_def)
  have h4: "map_of example_protos ''tcp'' = Some 6" by (simp add: example_protos_def)
  have p1: "protocol established_term = [ProtoName ''tcp'']" by (simp add: established_term_def)
  have p2: "protocol ?t2 \<noteq> [ProtoName ''tcp'']" "name ?t2 = ''allow-return''"
    by (simp_all add: established_term_def)
  show ?thesis
    using C4_tcp_established [OF h1 h2(1) h3(1) h4, of "[]"]
      C4_tcp_established [OF h1 h2(2) h3(2) h4, of "[]"] h1 h2 h3 h4 p1 p2
    by simp
qed




text \<open>
  C6, as the code has it. For every rule returned for a term, when the protocol of the
  iteration that appended it (the protocol at position i mod r of the list, for the i-th
  rule) is an integer or a name that \<open>PROTO_MAP\<close> resolves, that number is the protocol
  field of the config of the rule's address-family block (ipv4 or ipv6); no other block
  of the rule, and so not the transport block, has a protocol field.
\<close>

theorem C6_protocol_field:
  assumes "ConvertToDict PROTO_MAP t inet_version filter_options = Inr rules"
    and "map_of AF_MAP inet_version = Some term_af" and "map_of AF_RENAME term_af = Some family"
    and "i < length rules"
    and "proto_number PROTO_MAP (protos_of t ! (i mod dim (protocol t))) = Some n"
  shows "lookup3 (rules ! i) family ''config'' ''protocol'' = Some (IntV n) \<and>
         lookup3 (rules ! i) ''transport'' ''config'' ''protocol'' = None \<and>
         (\<forall>a b. lookup3 (rules ! i) a b ''protocol'' = None \<or> a = family \<and> b = ''config'')"
proof -
  let ?I = "\<lambda>d. \<forall>a b. lookup3 d a b ''protocol'' = None \<or> a = family \<and> b = ''config''"
  let ?E = "\<lambda>n d. lookup3 d family ''config'' ''protocol'' = Some (IntV n)"
  have fam: "family \<noteq> ''transport''"
    using assms(3) by (auto simp: AF_RENAME_cases)
  have "\<forall>i<length rules. entry_ok ?I (\<lambda>_ _. True) (\<lambda>_ _. True) ?E PROTO_MAP (sports_of t) (dports_of t)
          (protos_of t) i (rules ! i)"
  proof (rule ConvertToDict_entries(2) [OF assms(1-3)])
    fix d0 d1 assume "SetAction t [] = Inr d0" "SetOptions t d0 = Inr d1"
    from initial_lookup3 [OF this] show "?I d1" by fastforce
  qed (simp_all add: lookup3_setters)
  with assms(4,5) have "?I (rules ! i)" "?E n (rules ! i)"
    by (simp_all add: entry_ok_def pr_ok_def)
  with fam show ?thesis by auto
qed

text \<open>C6 at the sixth rule of the example term, appended for the protocol 17.\<close>

theorem C6_protocol_field_witness:
  "map_of AF_MAP ''inet'' = Some 4 \<and> map_of AF_RENAME 4 = Some ''ipv4'' \<and>
   proto_number example_protos (protos_of example_term ! (5 mod dim (protocol example_term))) = Some 17 \<and>
   (\<exists>rules. ConvertToDict example_protos example_term ''inet'' [] = Inr rules \<and> 5 < length rules \<and>
      lookup3 (rules ! 5) ''ipv4'' ''config'' ''protocol'' = Some (IntV 17) \<and>
      lookup3 (rules ! 5) ''transport'' ''config'' ''protocol'' = None)"
proof -
  obtain rules where conv: "ConvertToDict example_protos example_term ''inet'' [] = Inr rules"
    and len: "length rules = 8"
    using example_term_rules by blast
  have h2: "map_of AF_MAP ''inet'' = Some 4" by (simp add: AF_MAP_def)
  have h3: "map_of AF_RENAME 4 = Some ''ipv4''" by (simp add: AF_RENAME_def)
  have h4: "5 < length rules" using len by simp
  have h5: "proto_number example_protos (protos_of example_term ! (5 mod dim (protocol example_term))) = Some 17"
  proof -
    have "dim (protocol example_term) = 2" by (simp add: dim_def example_term_def)
    then show ?thesis by (simp add: proto_number_def protos_of_def example_term_def)
  qed
  from C6_protocol_field [OF conv h2 h3 h4 h5]
  have "lookup3 (rules ! 5) ''ipv4'' ''config'' ''protocol'' = Some (IntV 17)"
    "lookup3 (rules ! 5) ''transport'' ''config'' ''protocol'' = None"
    by blast+
  with conv h2 h3 h4 h5 show ?thesis by blast
qed

text \<open>
  C6 as stated fails: the rule of a term with the protocol tcp has the number 6 in the
  config of its ipv4 block, and it has no transport block at all.
\<close>

theorem C6_counterexample:
  "ConvertToDict example_protos (degenerate_term\<lparr>protocol := [ProtoName ''tcp'']\<rparr>) ''inet'' [] =
     Inr [[(''actions'', [(''config'', [(''forwarding-action'', StrV ''ACCEPT'')])]),
           (''ipv4'', [(''config'', [(''protocol'', IntV 6)])])]] \<and>
   lookup3 [(''actions'', [(''config'', [(''forwarding-action'', StrV ''ACCEPT'')])]),
            (''ipv4'', [(''config'', [(''protocol'', IntV 6)])])]
     ''transport'' ''config'' ''protocol'' = None"
  by (simp add: eval_defs degenerate_term_def example_protos_def lookup3_def)

text \<open>
  C7, as the code has it. For every term with no source and no destination address of the
  family, no port range, no protocol and the action accept, \<^verbatim>\<open>ConvertToDict\<close> returns
  exactly one rule, which holds the action ACCEPT and nothing else (no address-family
  block, no transport block), provided the term does not carry the tcp-established
  option; with that option the empty protocol list is not [tcp], and the conversion
  raises TcpEstablishedWithNonTcpError.
\<close>

theorem C7_degenerate_term:
  assumes "map_of AF_MAP inet_version = Some term_af"
    and "action t = ''accept'' # more_actions"
    and "GetAddressOfVersion (flattened_saddr t) term_af = []"
    and "GetAddressOfVersion (flattened_daddr t) term_af = []"
    and "source_port t = []" and "destination_port t = []" and "protocol t = []"
  shows "ConvertToDict PROTO_MAP t inet_version filter_options =
           (if ''tcp-established'' \<in> set (option t) then
              Inl (TcpEstablishedWithNonTcpError
                    (''tcp-established can only be used with tcp protocol in term '' @ name t))
            else Inr [[(''actions'', [(''config'', [(''forwarding-action'', StrV ''ACCEPT'')])])]])"
proof -
  from assms(1) obtain fam where fam: "map_of AF_RENAME term_af = Some fam"
    by (auto simp: AF_MAP_cases AF_RENAME_cases)
  have act: "SetAction t [] = Inr [(''actions'', [(''config'', [(''forwarding-action'', StrV ''ACCEPT'')])])]"
    by (simp add: SetAction_def assms(2) ACTION_MAP_def setitem3_def setitem2_def getitem_def)
  show ?thesis
  proof (cases "''tcp-established'' \<in> set (option t)")
    case True
    then show ?thesis
      using ConvertToDict_conflict [OF assms(1), of t PROTO_MAP filter_options]
      by (simp add: assms(2,7) action_ok_def ACTION_MAP_def)
  next
    case False
    then have "SetOptions t d = Inr d" for d
      by (simp add: SetOptions_def)
    then show ?thesis
      using False
      by (simp add: ConvertToDict_def assms fam act addrs_or_any_def sports_of_def dports_of_def
          protos_of_def is_any_port_def)
  qed
qed

text \<open>C7 at the term with nothing but the action accept, converted for inet6.\<close>

theorem C7_degenerate_term_witness:
  "map_of AF_MAP ''inet6'' = Some 6 \<and> action degenerate_term = ''accept'' # [] \<and>
   GetAddressOfVersion (flattened_saddr degenerate_term) 6 = [] \<and>
   GetAddressOfVersion (flattened_daddr degenerate_term) 6 = [] \<and>
   source_port degenerate_term = [] \<and> destination_port degenerate_term = [] \<and>
   protocol degenerate_term = [] \<and>
   ConvertToDict example_protos degenerate_term ''inet6'' [] =
     Inr [[(''actions'', [(''config'', [(''forwarding-action'', StrV ''ACCEPT'')])])]]"
proof -
  have h1: "map_of AF_MAP ''inet6'' = Some 6" by (simp add: AF_MAP_def)
  have h: "action degenerate_term = ''accept'' # []"
    "GetAddressOfVersion (flattened_saddr degenerate_term) 6 = []"
    "GetAddressOfVersion (flattened_daddr degenerate_term) 6 = []"
    "source_port degenerate_term = []" "destination_port degenerate_term = []"
    "protocol degenerate_term = []"
    by (simp_all add: degenerate_term_def GetAddressOfVersion_def)
  have o: "''tcp-established'' \<notin> set (option degenerate_term)"
    by (simp add: degenerate_term_def)
  show ?thesis
    using C7_degenerate_term [OF h1 h, of example_protos "[]"] h1 h o by simp
qed

text \<open>
  C7 as stated fails: a term with empty address, port and protocol lists, the action
  accept and the option tcp-established returns no rule; its conversion raises.
\<close>

theorem C7_counterexample:
  "ConvertToDict example_protos (degenerate_term\<lparr>option := [''tcp-established'']\<rparr>) ''inet'' [] =
     Inl (TcpEstablishedWithNonTcpError
           ''tcp-established can only be used with tcp protocol in term any-any'')"
  by (simp add: ConvertToDict_def AF_MAP_def AF_RENAME_def SetAction_def ACTION_MAP_def
      SetOptions_def degenerate_term_def)

text \<open>
  C8: the code departs from the claim. The term with two source addresses of the family
  and the source port list [(0, 0), (80, 80)] is converted into four rules. The third is
  appended under the second address in the first iteration of the loop over the source
  ports, the one of the pair (0, 0), which sets no port; the rule has the source-port
  field 80, which the last iteration under the first address left in the working
  dictionary.
\<close>

theorem C8_stale_port:
  "Term_convert example_protos example_always stale_term ''inet'' [] =
     Inr [[(''actions'', [(''config'', [(''forwarding-action'', StrV ''ACCEPT'')])]),
           (''ipv4'', [(''config'', [(''source-address'', StrV ''10.0.0.0/8'')])])],
          [(''actions'', [(''config'', [(''forwarding-action'', StrV ''ACCEPT'')])]),
           (''ipv4'', [(''config'', [(''source-address'', StrV ''10.0.0.0/8'')])]),
           (''transport'', [(''config'', [(''source-port'', IntV 80)])])],
          [(''actions'', [(''config'', [(''forwarding-action'', StrV ''ACCEPT'')])]),
           (''ipv4'', [(''config'', [(''source-address'', StrV ''192.168.0.0/16'')])]),
           (''transport'', [(''config'', [(''source-port'', IntV 80)])])],
          [(''actions'', [(''config'', [(''forwarding-action'', StrV ''ACCEPT'')])]),
           (''ipv4'', [(''config'', [(''source-address'', StrV ''192.168.0.0/16'')])]),
           (''transport'', [(''config'', [(''source-port'', IntV 80)])])]] \<and>
   dim (protocol stale_term) = 1 \<and> dim (destination_port stale_term) = 1 \<and>
   dim (source_port stale_term) = 2 \<and>
   sports_of stale_term ! (2 div (1 * 1) mod 2) = (0, 0) \<and>
   is_any_port (0, 0) \<and>
   lookup3 [(''actions'', [(''config'', [(''forwarding-action'', StrV ''ACCEPT'')])]),
            (''ipv4'', [(''config'', [(''source-address'', StrV ''192.168.0.0/16'')])]),
            (''transport'', [(''config'', [(''source-port'', IntV 80)])])]
     ''transport'' ''config'' ''source-port'' = Some (IntV 80)"
  by (simp add: Term_convert_def stale_term_init stale_term_rules)
    (simp add: stale_term_def dim_def sports_of_def is_any_port_def lookup3_def)

text \<open>
  C9, as the code has it. Every entry of a translation run is a rule, with its sequence-id,
  of the conversion of a term of the policy for one family: rule j (from 0) of
  \<^verbatim>\<open>ConvertToDict\<close> for the term as the constructor made it. The entry holds exactly one
  address-family block, the one of that family (ipv4 for inet, ipv6 for inet6), when the
  term has a source or a destination address of the family or a protocol number was set in
  one of the first j + 1 iterations of the protocol loop; otherwise it holds none. The key
  source-address occurs at most once in each config of the block, and so does
  destination-address; the source-address field of the block is the string of one source
  address of the family of the term when it is there, and likewise the destination-address
  field.
\<close>

theorem C9_family_block:
  assumes "TranslatePolicy PROTO_MAP ALWAYS_PROTO_NUM af_order filters = Inr self"
    and "e \<in> set (all_entries self)"
  shows "\<exists>f t t' term_af af family rules j n.
           f \<in> set filters \<and> t \<in> set (snd f) \<and>
           term_af \<in> set (term_address_families
                            (fst (select_family af_order (FilterOptions (fst f))))) \<and>
           Term_init PROTO_MAP ALWAYS_PROTO_NUM t = Inr t' \<and>
           map_of AF_MAP term_af = Some af \<and> map_of AF_RENAME af = Some family \<and>
           ConvertToDict PROTO_MAP t' term_af
             (snd (select_family af_order (FilterOptions (fst f)))) = Inr rules \<and>
           j < length rules \<and> e = set_sequence_id n (rules ! j) \<and>
           family_blocks e =
             (if family_set PROTO_MAP t' af j then [getitem (rules ! j) family] else []) \<and>
           list_all one_address_each (family_blocks e) \<and>
           map_of (getitem (getitem (rules ! j) family) ''config'') ''source-address''
             \<in> set (address_leaves (GetAddressOfVersion (flattened_saddr t') af)) \<and>
           map_of (getitem (getitem (rules ! j) family) ''config'') ''destination-address''
             \<in> set (address_leaves (GetAddressOfVersion (flattened_daddr t') af))"
proof -
  from TranslatePolicy_entries [OF assms] obtain f t term_af rules j n where
    f: "f \<in> set filters" and t: "t \<in> set (snd f)"
    and ta: "term_af \<in> set (term_address_families
                              (fst (select_family af_order (FilterOptions (fst f)))))"
    and tc: "Term_convert PROTO_MAP ALWAYS_PROTO_NUM t term_af
               (snd (select_family af_order (FilterOptions (fst f)))) = Inr rules"
    and j: "j < length rules" and e: "e = set_sequence_id n (rules ! j)"
    by blast
  from tc obtain t' where init: "Term_init PROTO_MAP ALWAYS_PROTO_NUM t = Inr t'"
    and conv: "ConvertToDict PROTO_MAP t' term_af
                 (snd (select_family af_order (FilterOptions (fst f)))) = Inr rules"
    by (auto simp: Term_convert_def split: sum.splits)
  from conv obtain af family where af: "map_of AF_MAP term_af = Some af"
    and fam: "map_of AF_RENAME af = Some family"
    by (auto elim!: ConvertToDict_InrD)
  note blk = ConvertToDict_block(1,2) [OF conv af fam j, of n, folded e]
    ConvertToDict_block(3,4) [OF conv af fam j]
  from f t ta init af fam conv j e blk show ?thesis
    by blast
qed

text \<open>
  C9 at the first entry of the example policy: it has one block, ipv4, with one source
  address.
\<close>

theorem C9_family_block_witness:
  "\<exists>self. TranslatePolicy example_protos example_always [''inet'', ''inet6'', ''mixed''] example_policy =
            Inr self \<and>
     [(''actions'', DictField [(''config'', [(''forwarding-action'', StrV ''ACCEPT'')])]),
      (''ipv4'', DictField [(''config'', [(''source-address'', StrV ''10.0.0.0/8'')])]),
      (''sequence-id'', IntField 5)] \<in> set (all_entries self) \<and>
     family_blocks
       [(''actions'', DictField [(''config'', [(''forwarding-action'', StrV ''ACCEPT'')])]),
        (''ipv4'', DictField [(''config'', [(''source-address'', StrV ''10.0.0.0/8'')])]),
        (''sequence-id'', IntField 5)] = [[(''config'', [(''source-address'', StrV ''10.0.0.0/8'')])]] \<and>
     (\<exists>f t t' term_af af family rules j n.
           f \<in> set example_policy \<and> t \<in> set (snd f) \<and>
           term_af \<in> set (term_address_families
                            (fst (select_family [''inet'', ''inet6'', ''mixed''] (FilterOptions (fst f))))) \<and>
           Term_init example_protos example_always t = Inr t' \<and>
           map_of AF_MAP term_af = Some af \<and> map_of AF_RENAME af = Some family \<and>
           ConvertToDict example_protos t' term_af
             (snd (select_family [''inet'', ''inet6'', ''mixed''] (FilterOptions (fst f)))) = Inr rules \<and>
           j < length rules \<and>
           [(''actions'', DictField [(''config'', [(''forwarding-action'', StrV ''ACCEPT'')])]),
            (''ipv4'', DictField [(''config'', [(''source-address'', StrV ''10.0.0.0/8'')])]),
            (''sequence-id'', IntField 5)] = set_sequence_id n (rules ! j) \<and>
           family_blocks
             [(''actions'', DictField [(''config'', [(''forwarding-action'', StrV ''ACCEPT'')])]),
              (''ipv4'', DictField [(''config'', [(''source-address'', StrV ''10.0.0.0/8'')])]),
              (''sequence-id'', IntField 5)] =
             (if family_set example_protos t' af j then [getitem (rules ! j) family] else []) \<and>
           list_all one_address_each (family_blocks
             [(''actions'', DictField [(''config'', [(''forwarding-action'', StrV ''ACCEPT'')])]),
              (''ipv4'', DictField [(''config'', [(''source-address'', StrV ''10.0.0.0/8'')])]),
              (''sequence-id'', IntField 5)]) \<and>
           map_of (getitem (getitem (rules ! j) family) ''config'') ''source-address''
             \<in> set (address_leaves (GetAddressOfVersion (flattened_saddr t') af)) \<and>
           map_of (getitem (getitem (rules ! j) family) ''config'') ''destination-address''
             \<in> set (address_leaves (GetAddressOfVersion (flattened_daddr t') af)))"
proof -
  let ?e = "[(''actions'', DictField [(''config'', [(''forwarding-action'', StrV ''ACCEPT'')])]),
      (''ipv4'', DictField [(''config'', [(''source-address'', StrV ''10.0.0.0/8'')])]),
      (''sequence-id'', IntField 5)]"
  obtain self where
    run: "TranslatePolicy example_protos example_always [''inet'', ''inet6'', ''mixed''] example_policy =
            Inr self"
    and mem: "?e \<in> set (all_entries self)"
    using example_policy_result by (simp add: all_entries_def)
  have fb: "family_blocks ?e = [[(''config'', [(''source-address'', StrV ''10.0.0.0/8'')])]]"
    by (simp add: family_blocks_def)
  note entry = C9_family_block [OF run mem]
  from run mem fb entry show ?thesis
    by (intro exI [of _ self] conjI)
qed

text \<open>
  C9 as stated fails: the entry of a term with no address and no protocol has no
  address-family block.
\<close>

theorem C9_counterexample:
  "TranslatePolicy example_protos example_always [''inet'', ''inet6'', ''mixed'']
     [(\<lparr>FilterOptions = [], FilterName = ''core'', header_comment = []\<rparr>, [degenerate_term])] =
   Inr \<lparr>total_rule_count = 1,
        acl_sets =
          [\<lparr>acl_entries =
              [[(''actions'', DictField [(''config'', [(''forwarding-action'', StrV ''ACCEPT'')])]),
                (''sequence-id'', IntField 5)]],
            config = \<lparr>config_name = ''core'', config_type = ''ACL_IPV4''\<rparr>,
            set_name = ''core'', set_type = ''ACL_IPV4''\<rparr>]\<rparr> \<and>
   family_blocks
     [(''actions'', DictField [(''config'', [(''forwarding-action'', StrV ''ACCEPT'')])]),
      (''sequence-id'', IntField 5)] = []"
  by (simp add: translate_defs example_inits degenerate_term_rules family_blocks_def)

text \<open>
  C10. The setters change the working dictionary in place and the rules are copies of it,
  taken in the innermost loop. So a field that a rule of a term has is a field of every
  later rule of that term, and the value of a field that a loop sets is, in each rule, the
  one written by the last iteration of that loop, up to the one in which the rule was
  appended, that wrote it (an iteration for the pair (0, 0), for 'any' or for 'none'
  writes nothing); the field is absent when none of them wrote. The iterations are counted
  through all passes of the loop: rule j (from 0) is appended in iteration j div k of the
  loop, k being the number of rules appended in one iteration of it, and the loop goes
  through its list once for each combination of the loops around it. In particular a rule
  appended in an iteration of the pair (0, 0) has the source-port field of the last
  earlier iteration for another pair, in this pass or in an earlier one.
\<close>

theorem C10_fields_persist:
  assumes "ConvertToDict PROTO_MAP t inet_version filter_options = Inr rules"
    and "map_of AF_MAP inet_version = Some term_af"
    and "map_of AF_RENAME term_af = Some family"
    and "i \<le> j" and "j < length rules"
  shows "(lookup3 (rules ! i) a b c = None \<or> lookup3 (rules ! j) a b c \<noteq> None) \<and>
         lookup3 (rules ! j) family ''config'' ''source-address'' =
           last_set addr_field
             (take (Suc (j div (dim (protocol t) * dim (destination_port t) * dim (source_port t) *
                                dim (GetAddressOfVersion (flattened_daddr t) term_af))))
                (addrs_or_any (GetAddressOfVersion (flattened_saddr t) term_af))) \<and>
         lookup3 (rules ! j) family ''config'' ''destination-address'' =
           last_set addr_field
             (take (Suc (j div (dim (protocol t) * dim (destination_port t) * dim (source_port t))))
                (concat (replicate (dim (GetAddressOfVersion (flattened_saddr t) term_af))
                   (addrs_or_any (GetAddressOfVersion (flattened_daddr t) term_af))))) \<and>
         lookup3 (rules ! j) ''transport'' ''config'' ''source-port'' =
           last_set port_field
             (take (Suc (j div (dim (protocol t) * dim (destination_port t))))
                (concat (replicate (dim (GetAddressOfVersion (flattened_saddr t) term_af) *
                                    dim (GetAddressOfVersion (flattened_daddr t) term_af))
                   (sports_of t)))) \<and>
         lookup3 (rules ! j) ''transport'' ''config'' ''destination-port'' =
           last_set port_field
             (take (Suc (j div dim (protocol t)))
                (concat (replicate (dim (GetAddressOfVersion (flattened_saddr t) term_af) *
                                    dim (GetAddressOfVersion (flattened_daddr t) term_af) *
                                    dim (source_port t))
                   (dports_of t)))) \<and>
         lookup3 (rules ! j) family ''config'' ''protocol'' =
           last_set (proto_field PROTO_MAP)
             (take (Suc j)
                (concat (replicate (dim (GetAddressOfVersion (flattened_saddr t) term_af) *
                                    dim (GetAddressOfVersion (flattened_daddr t) term_af) *
                                    dim (source_port t) * dim (destination_port t))
                   (protos_of t))))"
proof -
  have "keeps (rules ! i) (rules ! j)"
    using assms(1,4,5) by (rule ConvertToDict_keeps)
  then have "lookup3 (rules ! i) a b c = None \<or> lookup3 (rules ! j) a b c \<noteq> None"
    unfolding keeps_def by blast
  with ConvertToDict_fields [OF assms(1,2,3,5)] show ?thesis
    by (intro conjI)
qed

text \<open>
  C10 at two terms. The source port list [(80, 80), (443, 443), (0, 0)] gives three rules
  with the source-port fields 80, 443 and 443: the third, appended in the iteration of
  (0, 0), has the value of the second. The list [(0, 0), (80, 80)] under two source
  addresses gives four rules, the first without the field and the others with 80: the
  third, appended in an iteration of (0, 0), has the value that the pass under the first
  address left.
\<close>

theorem C10_fields_persist_witness:
  "map_of AF_MAP ''inet'' = Some 4 \<and> map_of AF_RENAME 4 = Some ''ipv4'' \<and>
   (\<exists>rules. ConvertToDict example_protos sentinel_term ''inet'' [] = Inr rules \<and>
      (1::nat) \<le> 2 \<and> 2 < length rules \<and> sports_of sentinel_term ! 2 = (0, 0) \<and>
      lookup3 (rules ! 1) ''transport'' ''config'' ''source-port'' = Some (IntV 443) \<and>
      lookup3 (rules ! 2) ''transport'' ''config'' ''source-port'' \<noteq> None \<and>
      lookup3 (rules ! 2) ''transport'' ''config'' ''source-port'' = Some (IntV 443)) \<and>
   (\<exists>rules. ConvertToDict example_protos stale_term ''inet'' [] = Inr rules \<and>
      (0::nat) \<le> 0 \<and> (0::nat) \<le> 2 \<and> 2 < length rules \<and> sports_of stale_term ! (2 mod 2) = (0, 0) \<and>
      lookup3 (rules ! 0) ''transport'' ''config'' ''source-port'' = None \<and>
      lookup3 (rules ! 2) ''transport'' ''config'' ''source-port'' = Some (IntV 80) \<and>
      lookup3 (rules ! 2) ''ipv4'' ''config'' ''source-address'' = Some (StrV ''192.168.0.0/16''))"
proof -
  have af: "map_of AF_MAP ''inet'' = Some 4" by (simp add: AF_MAP_def)
  have fam: "map_of AF_RENAME 4 = Some ''ipv4''" by (simp add: AF_RENAME_def)
  have v: "port_field (80, 80) = Some (IntV 80)" "port_field (443, 443) = Some (IntV 443)"
    "port_field (0, 0) = None"
    by (simp_all add: port_field_def is_any_port_def port_value_def)
  have a: "addr_field (Addr \<lparr>version = 4, str = ''10.0.0.0/8''\<rparr>) = Some (StrV ''10.0.0.0/8'')"
    "addr_field (Addr \<lparr>version = 4, str = ''192.168.0.0/16''\<rparr>) = Some (StrV ''192.168.0.0/16'')"
    by (simp_all add: addr_field_def)
  obtain rs where rs: "ConvertToDict example_protos sentinel_term ''inet'' [] = Inr rs"
    and ls: "length rs = 3"
    using sentinel_term_rules by simp
  have ds: "dim (protocol sentinel_term) = 1" "dim (destination_port sentinel_term) = 1"
    "dim (GetAddressOfVersion (flattened_saddr sentinel_term) 4) = 1"
    "dim (GetAddressOfVersion (flattened_daddr sentinel_term) 4) = 1"
    "sports_of sentinel_term = [(80, 80), (443, 443), (0, 0)]"
    by (simp_all add: dim_def sentinel_term_def GetAddressOfVersion_def sports_of_def)
  have s1: "(1::nat) \<le> 2" by simp
  have s2: "2 < length rs" using ls by simp
  have s3: "sports_of sentinel_term ! 2 = (0, 0)" by (simp add: ds)
  have s1': "(1::nat) \<le> 1" by simp
  have s2': "1 < length rs" using ls by simp
  from C10_fields_persist [OF rs af fam s1' s2', of "''transport''" "''config''" "''source-port''"]
  have s4: "lookup3 (rs ! 1) ''transport'' ''config'' ''source-port'' = Some (IntV 443)"
    unfolding ds by (simp add: last_set_def set_last_def v)
  from C10_fields_persist [OF rs af fam s1 s2, of "''transport''" "''config''" "''source-port''"]
  have s5: "lookup3 (rs ! 1) ''transport'' ''config'' ''source-port'' = None \<or>
      lookup3 (rs ! 2) ''transport'' ''config'' ''source-port'' \<noteq> None"
    and s6: "lookup3 (rs ! 2) ''transport'' ''config'' ''source-port'' = Some (IntV 443)"
    unfolding ds by (simp_all add: last_set_def set_last_def v eval_nat_numeral)
  from s4 s5 have s7: "lookup3 (rs ! 2) ''transport'' ''config'' ''source-port'' \<noteq> None"
    by simp
  obtain rt where rt: "ConvertToDict example_protos stale_term ''inet'' [] = Inr rt"
    and lt: "length rt = 4"
    using stale_term_rules by simp
  have dt: "dim (protocol stale_term) = 1" "dim (destination_port stale_term) = 1"
    "dim (source_port stale_term) = 2"
    "dim (GetAddressOfVersion (flattened_saddr stale_term) 4) = 2"
    "dim (GetAddressOfVersion (flattened_daddr stale_term) 4) = 1"
    "sports_of stale_term = [(0, 0), (80, 80)]"
    "addrs_or_any (GetAddressOfVersion (flattened_saddr stale_term) 4) =
       [Addr \<lparr>version = 4, str = ''10.0.0.0/8''\<rparr>, Addr \<lparr>version = 4, str = ''192.168.0.0/16''\<rparr>]"
    by (simp_all add: dim_def stale_term_def GetAddressOfVersion_def sports_of_def addrs_or_any_def)
  have t1: "(0::nat) \<le> 0" by simp
  have t2: "(0::nat) \<le> 2" by simp
  have t3: "2 < length rt" using lt by simp
  have t3': "0 < length rt" using lt by simp
  have t4: "sports_of stale_term ! (2 mod 2) = (0, 0)" by (simp add: dt)
  from C10_fields_persist [OF rt af fam t1 t3', of "''transport''" "''config''" "''source-port''"]
  have t5: "lookup3 (rt ! 0) ''transport'' ''config'' ''source-port'' = None"
    unfolding dt by (simp add: last_set_def set_last_def v eval_nat_numeral)
  from C10_fields_persist [OF rt af fam t2 t3, of "''transport''" "''config''" "''source-port''"]
  have t6: "lookup3 (rt ! 2) ''transport'' ''config'' ''source-port'' = Some (IntV 80)"
    and t7: "lookup3 (rt ! 2) ''ipv4'' ''config'' ''source-address'' = Some (StrV ''192.168.0.0/16'')"
    unfolding dt by (simp_all add: last_set_def set_last_def v a eval_nat_numeral)
  have S: "\<exists>rules. ConvertToDict example_protos sentinel_term ''inet'' [] = Inr rules \<and>
      (1::nat) \<le> 2 \<and> 2 < length rules \<and> sports_of sentinel_term ! 2 = (0, 0) \<and>
      lookup3 (rules ! 1) ''transport'' ''config'' ''source-port'' = Some (IntV 443) \<and>
      lookup3 (rules ! 2) ''transport'' ''config'' ''source-port'' \<noteq> None \<and>
      lookup3 (rules ! 2) ''transport'' ''config'' ''source-port'' = Some (IntV 443)"
    using rs s1 s2 s3 s4 s7 s6 by (intro exI [of _ rs] conjI)
  have T: "\<exists>rules. ConvertToDict example_protos stale_term ''inet'' [] = Inr rules \<and>
      (0::nat) \<le> 0 \<and> (0::nat) \<le> 2 \<and> 2 < length rules \<and> sports_of stale_term ! (2 mod 2) = (0, 0) \<and>
      lookup3 (rules ! 0) ''transport'' ''config'' ''source-port'' = None \<and>
      lookup3 (rules ! 2) ''transport'' ''config'' ''source-port'' = Some (IntV 80) \<and>
      lookup3 (rules ! 2) ''ipv4'' ''config'' ''source-address'' = Some (StrV ''192.168.0.0/16'')"
    using rt t1 t2 t3 t4 t5 t6 t7 by (intro exI [of _ rt] conjI)
  from af fam S T show ?thesis
    by (intro conjI)
qed


end
